theory Spec2Isabelle
  imports Complex_Main "HOL-Library.AList" "HOL-Library.Multiset" "HOL-Library.Log_Nat"
    "HOL-Library.Code_Target_Numeral"
begin

section \<open>Common vocabulary\<close>

text \<open>
  A call of a C++ member function either returns (with a value and the object's new
  state), leaves by an exception (identified by its \<open>what()\<close> string, or by a description
  of the thrown object when it is no \<open>std::exception\<close>; the state is the one left behind
  after stack unwinding), or does not come back at all: \<open>Deadlock\<close> is a
  \<open>std::lock_guard\<close> on a \<open>std::mutex\<close> that the calling thread already owns (undefined
  behaviour by the standard, a thread blocked forever on the usual implementations),
  \<open>BadDeref\<close> is a call or read through a null or dangling pointer, \<open>DivByZero\<close> is an
  integer remainder by zero.
\<close>

datatype ('a, 's) outcome =
    Returns 'a 's
  | Throws string 's
  | Deadlock
  | BadDeref
  | DivByZero

text \<open>
  \<open>size_t\<close> values are natural numbers below \<open>2 ^ 64\<close>; \<open>static_cast<size_t>(-1)\<close> is
  \<open>SIZE_MAX\<close>. \<open>std::numeric_limits<double>::max()\<close> is \<open>DBL_MAX\<close>.
\<close>

type_synonym size_t = nat

definition SIZE_MAX :: size_t where
  "SIZE_MAX = 18446744073709551615"

definition DBL_MAX :: real where
  "DBL_MAX = (2 - 1 / 2 ^ 52) * 2 ^ 1023"

subsection \<open>IEEE 754 binary64\<close>

text \<open>
  A \<open>double\<close> is a finite value, given by the real number it denotes, an infinity or a
  NaN. The two zeros are one value: they compare equal and differ in nothing the code
  below looks at. \<open>dless\<close> is the operator \<open><\<close> on doubles: false as soon as an operand
  is a NaN.
\<close>

datatype double = Finite real | PlusInf | MinusInf | NaN

fun dless :: "double \<Rightarrow> double \<Rightarrow> bool" where
  "dless (Finite x) (Finite y) = (x < y)"
| "dless (Finite x) PlusInf = True"
| "dless MinusInf (Finite y) = True"
| "dless MinusInf PlusInf = True"
| "dless a b = False"

text \<open>
  \<open>to_double\<close> rounds a real number to binary64 in the default mode, to nearest with
  ties to the even significand. \<open>ilog2 y\<close> is the exponent \<open>e\<close> with
  \<open>2 ^ e \<le> y < 2 ^ (e + 1)\<close> for a positive \<open>y\<close>, that is \<open>\<lfloor>log 2 y\<rfloor>\<close>, computed from the
  bit length of the integer part of \<open>y\<close> or of \<open>1 / y\<close>; \<open>binade x\<close> is that exponent for
  \<open>|x|\<close>, not below the least normal exponent; the doubles around \<open>x\<close> are the multiples
  of \<open>2 ^ (binade x - 52)\<close>. A result of magnitude \<open>2 ^ 1024\<close> or more is an infinity. A
  decimal literal of the source denotes \<open>to_double\<close> of its value, and an arithmetic
  operation on finite doubles is the exact operation followed by \<open>to_double\<close> (each
  operation on its own, as without contraction into fused operations).
\<close>

definition pow2 :: "int \<Rightarrow> real" where
  "pow2 k = (if 0 \<le> k then 2 ^ nat k else 1 / 2 ^ nat (- k))"

definition round_half_even :: "real \<Rightarrow> int" where
  "round_half_even r =
     (if r - of_int \<lfloor>r\<rfloor> < 1 / 2 then \<lfloor>r\<rfloor>
      else if 1 / 2 < r - of_int \<lfloor>r\<rfloor> then \<lfloor>r\<rfloor> + 1
      else if even \<lfloor>r\<rfloor> then \<lfloor>r\<rfloor> else \<lfloor>r\<rfloor> + 1)"

definition ilog2 :: "real \<Rightarrow> int" where
  "ilog2 y = (if 1 \<le> y then bitlen \<lfloor>y\<rfloor> - 1 else - bitlen (\<lceil>1 / y\<rceil> - 1))"

definition binade :: "real \<Rightarrow> int" where
  "binade x = max (ilog2 \<bar>x\<bar>) (- 1022)"

definition to_double :: "real \<Rightarrow> double" where
  "to_double x =
     (if x = 0 then Finite 0
      else if 2 ^ 1024 \<le>
                of_int (round_half_even (\<bar>x\<bar> / pow2 (binade x - 52))) * pow2 (binade x - 52)
      then (if x < 0 then MinusInf else PlusInf)
      else Finite (sgn x *
             (of_int (round_half_even (\<bar>x\<bar> / pow2 (binade x - 52))) * pow2 (binade x - 52))))"

fun dadd :: "double \<Rightarrow> double \<Rightarrow> double" where
  "dadd (Finite x) (Finite y) = to_double (x + y)"
| "dadd NaN b = NaN"
| "dadd a NaN = NaN"
| "dadd PlusInf MinusInf = NaN"
| "dadd MinusInf PlusInf = NaN"
| "dadd PlusInf b = PlusInf"
| "dadd MinusInf b = MinusInf"
| "dadd a PlusInf = PlusInf"
| "dadd a MinusInf = MinusInf"

fun dmul :: "double \<Rightarrow> double \<Rightarrow> double" where
  "dmul (Finite x) (Finite y) = to_double (x * y)"
| "dmul NaN b = NaN"
| "dmul a NaN = NaN"
| "dmul PlusInf (Finite y) = (if y = 0 then NaN else if 0 < y then PlusInf else MinusInf)"
| "dmul MinusInf (Finite y) = (if y = 0 then NaN else if 0 < y then MinusInf else PlusInf)"
| "dmul (Finite x) PlusInf = (if x = 0 then NaN else if 0 < x then PlusInf else MinusInf)"
| "dmul (Finite x) MinusInf = (if x = 0 then NaN else if 0 < x then MinusInf else PlusInf)"
| "dmul PlusInf PlusInf = PlusInf"
| "dmul PlusInf MinusInf = MinusInf"
| "dmul MinusInf PlusInf = MinusInf"
| "dmul MinusInf MinusInf = PlusInf"

text \<open>
  Modelled from the spec: \<open>Task\<close>, \<open>TaskType\<close>, \<open>TaskPriority\<close> and \<open>TaskStatus\<close> are
  used by \<open>LoadBalancer.cpp\<close> and the tests, but the header that declares them is
  missing. The enumerators are the ones the code names (the spec's Compute, Ledger,
  Network, Storage; Low, Normal, High; Pending ... Unknown). The fields of \<open>Task\<close> are
  the ones the code and the tests read or write (\<open>type\<close>, \<open>priority\<close>, \<open>data\<close>
  written \<open>task_data\<close>, \<open>assigned_core\<close>) and the task id of the spec's data model
  (\<open>task_ident\<close>).
\<close>

datatype TaskType = COMPUTE | BLOCKCHAIN | NETWORK | STORAGE

datatype TaskPriority = LOW | NORMAL | HIGH

datatype TaskStatus = PENDING | RUNNING | COMPLETED | CANCELLED | FAILED | UNKNOWN

record Task =
  task_ident :: nat
  type :: TaskType
  priority :: TaskPriority
  task_data :: string
  assigned_core :: size_t

section \<open>LoadBalancer (src/core/LoadBalancer.cpp)\<close>

record TaskMetrics =
  cpu_usage :: double
  memory_usage :: double
  network_usage :: double
  queue_size :: size_t
  active_tasks :: size_t

record CoreMetrics =
  metrics :: TaskMetrics
  last_update :: nat
  is_healthy :: bool

text \<open>
  The four collaborators are reached through raw pointers that the constructor sets to
  \<open>nullptr\<close>; \<open>None\<close> is the null pointer. \<open>MultiCoreEngine::submit_task\<close> and the
  member functions of \<open>MultiCoreBlockchain\<close> that the balancer calls have no body in the
  sources: a registered compute or blockchain engine is the list of calls it has
  received so far, and such a call returns.
\<close>

datatype engine_call =
    SubmitTask size_t Task
  | CancelTask size_t
  | CleanupCore size_t

text \<open>
  \<open>NetworkManager\<close> and \<open>StorageManager\<close> (src/core/NetworkManager.cpp,
  src/core/StorageManager.cpp) have the same text for \<open>submit_task\<close> (lines 164-178 and
  148-162) and for \<open>cleanup_core\<close>. Of \<open>cores_\<close> the entries say whether the pointer is
  non-null; the classes \<open>NetworkCore\<close> and \<open>StorageCore\<close> are not in the sources, so a call
  on a core is recorded with the core's index. The manager's own \<open>task_mutex_\<close> is taken
  and released inside \<open>submit_task\<close> and is owned by no caller.
\<close>

record Manager =
  manager_cores :: "bool list"
  manager_tasks :: "(size_t \<times> Task) list"
  manager_task_status :: "(size_t \<times> TaskStatus) list"
  manager_core_calls :: "(size_t \<times> engine_call) list"

definition manager_submit_task :: "Manager \<Rightarrow> size_t \<Rightarrow> Task \<Rightarrow> (size_t, Manager) outcome" where
  "manager_submit_task m task_id task =
     (if length (manager_cores m) = 0 then DivByZero
      else if task_id mod length (manager_cores m) < length (manager_cores m) \<and>
              manager_cores m ! (task_id mod length (manager_cores m))
      then Returns task_id
             (m\<lparr>manager_tasks := AList.update task_id task (manager_tasks m),
                manager_task_status := AList.update task_id PENDING (manager_task_status m),
                manager_core_calls := manager_core_calls m @
                   [(task_id mod length (manager_cores m), SubmitTask task_id task)]\<rparr>)
      else Returns task_id
             (m\<lparr>manager_tasks := AList.update task_id task (manager_tasks m),
                manager_task_status := AList.update task_id PENDING (manager_task_status m)\<rparr>))"

definition manager_cleanup_core :: "Manager \<Rightarrow> size_t \<Rightarrow> Manager" where
  "manager_cleanup_core m core_id =
     (if core_id < length (manager_cores m) \<and> manager_cores m ! core_id
      then m\<lparr>manager_core_calls := manager_core_calls m @ [(core_id, CleanupCore core_id)]\<rparr>
      else m)"

text \<open>
  A \<open>std::unordered_map\<close> is an association list with distinct keys, in iteration order.
  Assigning to the mapped value of an existing key keeps the order; the position of a new
  key is not fixed by the standard and is taken to be the end (\<open>AList.update\<close>); no
  statement below depends on that choice. The two mutex fields say whether the calling
  thread owns the mutex. Member names are written without the trailing underscore of the
  source (\<open>tasks_\<close> is \<open>tasks\<close>), which an Isabelle name cannot end in.
\<close>

record LoadBalancer =
  compute_engine :: "engine_call list option"
  blockchain_engine :: "engine_call list option"
  network_manager :: "Manager option"
  storage_manager :: "Manager option"
  tasks :: "(size_t \<times> Task) list"
  task_status :: "(size_t \<times> TaskStatus) list"
  task_metrics :: "(size_t \<times> TaskMetrics) list"
  task_mutex :: bool
  core_metrics :: "(size_t \<times> CoreMetrics) list"
  metrics_mutex :: bool

text \<open>The composite load of lines 146-148, in double arithmetic, summed from the left.\<close>

definition load_of :: "CoreMetrics \<Rightarrow> double" where
  "load_of m =
     dadd (dadd (dmul (cpu_usage (metrics m)) (to_double (4 / 10)))
                (dmul (memory_usage (metrics m)) (to_double (3 / 10))))
          (dmul (network_usage (metrics m)) (to_double (3 / 10)))"

text \<open>
  The \<open>for\<close> loop of \<open>find_least_loaded_core\<close> over the map's iteration order, with its
  two local variables \<open>least_loaded_core\<close> and \<open>min_load\<close>.
\<close>

fun least_loaded_loop :: "(size_t \<times> CoreMetrics) list \<Rightarrow> size_t \<Rightarrow> double \<Rightarrow> size_t" where
  "least_loaded_loop [] least_loaded_core min_load = least_loaded_core"
| "least_loaded_loop ((core_id, m) # rest) least_loaded_core min_load =
     (if \<not> is_healthy m then least_loaded_loop rest least_loaded_core min_load
      else if dless (load_of m) min_load then least_loaded_loop rest core_id (load_of m)
      else least_loaded_loop rest least_loaded_core min_load)"

definition find_least_loaded_core :: "LoadBalancer \<Rightarrow> (size_t, LoadBalancer) outcome" where
  "find_least_loaded_core s =
     (if metrics_mutex s then Deadlock
      else Returns (least_loaded_loop (core_metrics s) SIZE_MAX (Finite DBL_MAX)) s)"

definition get_task_status :: "LoadBalancer \<Rightarrow> size_t \<Rightarrow> (TaskStatus, LoadBalancer) outcome" where
  "get_task_status s task_id =
     (if task_mutex s then Deadlock
      else (case map_of (task_status s) task_id of
              Some st \<Rightarrow> Returns st s
            | None \<Rightarrow> Returns UNKNOWN s))"

definition is_core_healthy :: "LoadBalancer \<Rightarrow> size_t \<Rightarrow> (bool, LoadBalancer) outcome" where
  "is_core_healthy s core_id =
     (if metrics_mutex s then Deadlock
      else (case map_of (core_metrics s) core_id of
              Some m \<Rightarrow> Returns (is_healthy m) s
            | None \<Rightarrow> Returns False s))"

definition update_core_metrics :: "LoadBalancer \<Rightarrow> size_t \<Rightarrow> CoreMetrics \<Rightarrow> (unit, LoadBalancer) outcome" where
  "update_core_metrics s core_id m =
     (if metrics_mutex s then Deadlock
      else Returns () (s\<lparr>core_metrics := AList.update core_id m (core_metrics s)\<rparr>))"

text \<open>
  The \<open>if\<close>/\<open>else if\<close> chain on \<open>task.type\<close> that hands a task to its collaborator
  (lines 88-96 and again 328-336). The pointer is not tested before the call.
\<close>

definition engine_submit :: "LoadBalancer \<Rightarrow> size_t \<Rightarrow> Task \<Rightarrow> (unit, LoadBalancer) outcome" where
  "engine_submit s task_id task =
     (case type task of
        COMPUTE \<Rightarrow> (case compute_engine s of None \<Rightarrow> BadDeref
                    | Some calls \<Rightarrow> Returns () (s\<lparr>compute_engine := Some (calls @ [SubmitTask task_id task])\<rparr>))
      | BLOCKCHAIN \<Rightarrow> (case blockchain_engine s of None \<Rightarrow> BadDeref
                    | Some calls \<Rightarrow> Returns () (s\<lparr>blockchain_engine := Some (calls @ [SubmitTask task_id task])\<rparr>))
      | NETWORK \<Rightarrow> (case network_manager s of None \<Rightarrow> BadDeref
                    | Some m \<Rightarrow>
                        (case manager_submit_task m task_id task of
                           Returns r m1 \<Rightarrow> Returns () (s\<lparr>network_manager := Some m1\<rparr>)
                         | Throws w m1 \<Rightarrow> Throws w (s\<lparr>network_manager := Some m1\<rparr>)
                         | Deadlock \<Rightarrow> Deadlock
                         | BadDeref \<Rightarrow> BadDeref
                         | DivByZero \<Rightarrow> DivByZero))
      | STORAGE \<Rightarrow> (case storage_manager s of None \<Rightarrow> BadDeref
                    | Some m \<Rightarrow>
                        (case manager_submit_task m task_id task of
                           Returns r m1 \<Rightarrow> Returns () (s\<lparr>storage_manager := Some m1\<rparr>)
                         | Throws w m1 \<Rightarrow> Throws w (s\<lparr>storage_manager := Some m1\<rparr>)
                         | Deadlock \<Rightarrow> Deadlock
                         | BadDeref \<Rightarrow> BadDeref
                         | DivByZero \<Rightarrow> DivByZero)))"



text \<open>
  \<open>cleanup_core\<close> tests each pointer before it calls through it.
\<close>

definition notify_cleanup :: "size_t \<Rightarrow> engine_call list option \<Rightarrow> engine_call list option" where
  "notify_cleanup core_id e = (case e of None \<Rightarrow> None | Some calls \<Rightarrow> Some (calls @ [CleanupCore core_id]))"

definition cleanup_core :: "LoadBalancer \<Rightarrow> size_t \<Rightarrow> (unit, LoadBalancer) outcome" where
  "cleanup_core s core_id =
     Returns () (s\<lparr>compute_engine := notify_cleanup core_id (compute_engine s),
                   blockchain_engine := notify_cleanup core_id (blockchain_engine s),
                   network_manager := map_option (\<lambda>m. manager_cleanup_core m core_id) (network_manager s),
                   storage_manager := map_option (\<lambda>m. manager_cleanup_core m core_id) (storage_manager s)\<rparr>)"

text \<open>
  The second loop of \<open>redistribute_tasks\<close> (lines 321-338), over the collected task ids.
  Every id was read from \<open>tasks\<close> under the same lock, so \<open>tasks[task_id]\<close> finds its
  entry; the \<open>None\<close> branch is never taken and leaves the state as it is.
\<close>

fun redistribute_loop :: "LoadBalancer \<Rightarrow> size_t list \<Rightarrow> (unit, LoadBalancer) outcome" where
  "redistribute_loop s [] = Returns () s"
| "redistribute_loop s (task_id # failed_tasks) =
     (case find_least_loaded_core s of
        Returns target_core s1 \<Rightarrow>
          if target_core \<noteq> SIZE_MAX then
            (case map_of (tasks s1) task_id of
               None \<Rightarrow> redistribute_loop s1 failed_tasks
             | Some t \<Rightarrow>
                 (let t' = t\<lparr>assigned_core := target_core\<rparr>;
                      s2 = s1\<lparr>tasks := AList.update task_id t' (tasks s1)\<rparr>
                  in (case engine_submit s2 task_id t' of
                        Returns u s3 \<Rightarrow> redistribute_loop s3 failed_tasks
                      | Throws w s3 \<Rightarrow> Throws w s3
                      | Deadlock \<Rightarrow> Deadlock
                      | BadDeref \<Rightarrow> BadDeref
                      | DivByZero \<Rightarrow> DivByZero)))
          else redistribute_loop s1 failed_tasks
      | Throws w s1 \<Rightarrow> Throws w s1
      | Deadlock \<Rightarrow> Deadlock
      | BadDeref \<Rightarrow> BadDeref
      | DivByZero \<Rightarrow> DivByZero)"

definition redistribute_tasks :: "LoadBalancer \<Rightarrow> size_t \<Rightarrow> (unit, LoadBalancer) outcome" where
  "redistribute_tasks s failed_core_id =
     (if task_mutex s then Deadlock
      else
        (let failed_tasks = map fst (filter (\<lambda>(task_id, task). assigned_core task = failed_core_id) (tasks s))
         in (case redistribute_loop (s\<lparr>task_mutex := True\<rparr>) failed_tasks of
               Returns u s1 \<Rightarrow> Returns () (s1\<lparr>task_mutex := False\<rparr>)
             | Throws w s1 \<Rightarrow> Throws w (s1\<lparr>task_mutex := False\<rparr>)
             | Deadlock \<Rightarrow> Deadlock
             | BadDeref \<Rightarrow> BadDeref
             | DivByZero \<Rightarrow> DivByZero)))"

text \<open>
  \<open>mark_core_unhealthy\<close> (lines 170-177) and \<open>handle_core_failure\<close> (lines 298-307) call
  each other. The recursion ends because the second entry into \<open>mark_core_unhealthy\<close>
  finds \<open>metrics_mutex\<close> owned by the caller.
\<close>

function mark_core_unhealthy :: "LoadBalancer \<Rightarrow> size_t \<Rightarrow> (unit, LoadBalancer) outcome"
  and handle_core_failure :: "LoadBalancer \<Rightarrow> size_t \<Rightarrow> (unit, LoadBalancer) outcome" where
  "mark_core_unhealthy s core_id =
     (if metrics_mutex s then Deadlock
      else (case map_of (core_metrics s) core_id of
              None \<Rightarrow> Returns () s
            | Some m \<Rightarrow>
                (case handle_core_failure
                        (s\<lparr>metrics_mutex := True,
                           core_metrics := AList.update core_id (m\<lparr>is_healthy := False\<rparr>) (core_metrics s)\<rparr>)
                        core_id of
                   Returns u s1 \<Rightarrow> Returns () (s1\<lparr>metrics_mutex := False\<rparr>)
                 | Throws w s1 \<Rightarrow> Throws w (s1\<lparr>metrics_mutex := False\<rparr>)
                 | Deadlock \<Rightarrow> Deadlock
                 | BadDeref \<Rightarrow> BadDeref
                 | DivByZero \<Rightarrow> DivByZero)))"
| "handle_core_failure s core_id =
     (case mark_core_unhealthy s core_id of
        Returns u s1 \<Rightarrow>
          (case redistribute_tasks s1 core_id of
             Returns u' s2 \<Rightarrow> cleanup_core s2 core_id
           | Throws w s2 \<Rightarrow> Throws w s2
           | Deadlock \<Rightarrow> Deadlock
           | BadDeref \<Rightarrow> BadDeref
           | DivByZero \<Rightarrow> DivByZero)
      | Throws w s1 \<Rightarrow> Throws w s1
      | Deadlock \<Rightarrow> Deadlock
      | BadDeref \<Rightarrow> BadDeref
      | DivByZero \<Rightarrow> DivByZero)"
  by pat_completeness auto
termination
  by (relation "measure (\<lambda>x. case x of
          Inl (s, c) \<Rightarrow> (if metrics_mutex s then 0 else 2)
        | Inr (s, c) \<Rightarrow> (if metrics_mutex s then 1 else 3))") auto

text \<open>The two loops of \<open>rebalance_load\<close> (lines 205-222).\<close>

definition is_overloaded :: "CoreMetrics \<Rightarrow> bool" where
  "is_overloaded m \<longleftrightarrow> dless (to_double (8 / 10)) (cpu_usage (metrics m)) \<or>
                   dless (to_double (8 / 10)) (memory_usage (metrics m)) \<or>
                   dless (to_double (8 / 10)) (network_usage (metrics m))"

fun rebalance_loop :: "LoadBalancer \<Rightarrow> size_t list \<Rightarrow> (unit, LoadBalancer) outcome" where
  "rebalance_loop s [] = Returns () s"
| "rebalance_loop s (core_id # overloaded_cores) =
     (case redistribute_tasks s core_id of
        Returns u s1 \<Rightarrow> rebalance_loop s1 overloaded_cores
      | Throws w s1 \<Rightarrow> Throws w s1
      | Deadlock \<Rightarrow> Deadlock
      | BadDeref \<Rightarrow> BadDeref
      | DivByZero \<Rightarrow> DivByZero)"

definition rebalance_load :: "LoadBalancer \<Rightarrow> (unit, LoadBalancer) outcome" where
  "rebalance_load s =
     (if metrics_mutex s then Deadlock
      else
        (let overloaded_cores = map fst (filter (\<lambda>(core_id, m). is_overloaded m) (core_metrics s))
         in (case rebalance_loop (s\<lparr>metrics_mutex := True\<rparr>) overloaded_cores of
               Returns u s1 \<Rightarrow> Returns () (s1\<lparr>metrics_mutex := False\<rparr>)
             | Throws w s1 \<Rightarrow> Throws w (s1\<lparr>metrics_mutex := False\<rparr>)
             | Deadlock \<Rightarrow> Deadlock
             | BadDeref \<Rightarrow> BadDeref
             | DivByZero \<Rightarrow> DivByZero)))"


section \<open>HierarchicalLock (src/sync/advanced_synchronization.cpp)\<close>

text \<open>
  The atomic member \<open>lock_\<close> (here \<open>lock_word\<close>) is shared; \<open>current_hierarchy\<close> is the
  \<open>thread_local\<close> of the calling thread. The acquisition loop is read from the point of
  view of that thread alone: a compare-exchange succeeds when the word holds the expected
  value, and when it does not, nothing this thread does will change it, so the loop does
  not return (\<open>None\<close>).
\<close>

record HierarchicalLock =
  lock_word :: nat
  current_hierarchy :: nat

partial_function (option) spin_acquire :: "HierarchicalLock \<Rightarrow> nat \<Rightarrow> HierarchicalLock option" where
  "spin_acquire s hierarchy =
     (if lock_word s = 0 then Some (s\<lparr>lock_word := hierarchy\<rparr>) else spin_acquire s hierarchy)"

definition InvalidHierarchy :: string where
  "InvalidHierarchy = ''Invalid lock hierarchy''"

definition lock :: "HierarchicalLock \<Rightarrow> nat \<Rightarrow> (unit, HierarchicalLock) outcome option" where
  "lock s hierarchy =
     (if hierarchy \<le> current_hierarchy s then Some (Throws InvalidHierarchy s)
      else (case spin_acquire s hierarchy of
              None \<Rightarrow> None
            | Some s1 \<Rightarrow> Some (Returns () (s1\<lparr>current_hierarchy := hierarchy\<rparr>))))"

section \<open>The lock-free queues (src/sync)\<close>

text \<open>
  Nodes live in a store from addresses to nodes; \<open>delete\<close> removes the address. The
  headers with the class declarations are missing; the members are the ones the
  two \<open>.cpp\<close> files use (\<open>Node{item, nullptr}\<close>, \<open>head_\<close>, \<open>tail_\<close>). The loops are read
  without interference from other threads: the re-read of \<open>head_\<close> or \<open>tail_\<close> gives the
  value just loaded and a compare-exchange on an unchanged location succeeds.
\<close>

type_synonym addr = nat

record 'a Node =
  data :: 'a
  "next" :: "addr option"

record 'a LockFreeQueue =
  nodes :: "addr \<Rightarrow> 'a Node option"
  head :: addr
  tail :: addr

text \<open>
  \<open>enqueue\<close> is the same text in both files. \<open>new_node\<close> is the address \<open>new\<close> returned.
\<close>

partial_function (option) enqueue ::
  "'a LockFreeQueue \<Rightarrow> addr \<Rightarrow> 'a \<Rightarrow> (unit, 'a LockFreeQueue) outcome option" where
  "enqueue q new_node item =
     (case nodes q (tail q) of
        None \<Rightarrow> Some BadDeref
      | Some tn \<Rightarrow>
          (case next tn of
             None \<Rightarrow>
               Some (Returns ()
                 (q\<lparr>nodes := (nodes q)(tail q \<mapsto> tn\<lparr>next := Some new_node\<rparr>,
                                          new_node \<mapsto> \<lparr>data = item, next = None\<rparr>),
                    tail := new_node\<rparr>))
           | Some n \<Rightarrow> enqueue (q\<lparr>tail := n\<rparr>) new_node item))"

text \<open>\<open>concurrency::LockFreeQueue<T>::dequeue(T& result)\<close>: \<open>false\<close> is \<open>None\<close>, \<open>true\<close>
  with \<open>result\<close> assigned is \<open>Some\<close> of the value.\<close>

partial_function (option) dequeue ::
  "'a LockFreeQueue \<Rightarrow> ('a option, 'a LockFreeQueue) outcome option" where
  "dequeue q =
     (case nodes q (head q) of
        None \<Rightarrow> Some BadDeref
      | Some hn \<Rightarrow>
          if head q = tail q then
            (case next hn of
               None \<Rightarrow> Some (Returns None q)
             | Some n \<Rightarrow> dequeue (q\<lparr>tail := n\<rparr>))
          else
            (case next hn of
               None \<Rightarrow> dequeue q
             | Some n \<Rightarrow>
                 (case nodes q n of
                    None \<Rightarrow> Some BadDeref
                  | Some nn \<Rightarrow>
                      Some (Returns (Some (data nn))
                              (q\<lparr>head := n, nodes := (nodes q)(head q := None)\<rparr>)))))"

text \<open>\<open>lockfree::LockFreeQueue<T>::dequeue()\<close> returns the value or throws.\<close>

definition QueueIsEmpty :: string where
  "QueueIsEmpty = ''Queue is empty''"

partial_function (option) lockfree_dequeue ::
  "'a LockFreeQueue \<Rightarrow> ('a, 'a LockFreeQueue) outcome option" where
  "lockfree_dequeue q =
     (case nodes q (head q) of
        None \<Rightarrow> Some BadDeref
      | Some hn \<Rightarrow>
          if head q = tail q then
            (case next hn of
               None \<Rightarrow> Some (Throws QueueIsEmpty q)
             | Some n \<Rightarrow> lockfree_dequeue (q\<lparr>tail := n\<rparr>))
          else
            (case next hn of
               None \<Rightarrow> lockfree_dequeue q
             | Some n \<Rightarrow>
                 (case nodes q n of
                    None \<Rightarrow> Some BadDeref
                  | Some nn \<Rightarrow>
                      Some (Returns (data nn)
                              (q\<lparr>head := n, nodes := (nodes q)(head q := None)\<rparr>)))))"

text \<open>
  The shape of a queue between operations: from the dummy node at \<open>head\<close> the \<open>next\<close>
  pointers run through the addresses \<open>ns\<close> of the real nodes, in order, and end in
  \<open>nullptr\<close>; no address occurs twice; \<open>tail\<close> is one of these nodes.
\<close>

fun queue_chain :: "(addr \<Rightarrow> 'a Node option) \<Rightarrow> addr \<Rightarrow> addr list \<Rightarrow> bool" where
  "queue_chain h a [] = (case h a of None \<Rightarrow> False | Some n \<Rightarrow> next n = None)"
| "queue_chain h a (b # bs) =
     (case h a of None \<Rightarrow> False | Some n \<Rightarrow> next n = Some b \<and> queue_chain h b bs)"

definition well_formed :: "'a LockFreeQueue \<Rightarrow> addr list \<Rightarrow> bool" where
  "well_formed q ns \<longleftrightarrow>
     queue_chain (nodes q) (head q) ns \<and> distinct (head q # ns) \<and> tail q \<in> set (head q # ns)"

text \<open>The item stored at an address (read only at addresses of the chain).\<close>

definition item_at :: "'a LockFreeQueue \<Rightarrow> addr \<Rightarrow> 'a option" where
  "item_at q a = map_option data (nodes q a)"

section \<open>MultiCoreEngine (src/core/MultiCoreEngine.cpp)\<close>

text \<open>
  Modelled from the spec: \<open>TaskQueue\<close> (its \<open>empty\<close>, \<open>size\<close>, \<open>pop\<close> and \<open>drain\<close>) is
  declared nowhere in the sources; by the spec it is a first-in first-out queue, here
  the list of its tasks, oldest first: \<open>pop\<close> takes the first task, \<open>drain\<close> returns the
  whole content and leaves the queue empty, \<open>size\<close> is the length. Of \<open>struct Core\<close>
  (MultiCoreEngine.h) the two flags and the queue are kept.
\<close>

record Core =
  running :: bool
  paused :: bool
  task_queue :: "Task list"

text \<open>
  Besides \<open>cores_\<close> the engine state carries what the calls into absent code leave
  behind: \<open>execute_trace\<close> lists the tasks whose \<open>execute()\<close> was called, in call order;
  \<open>handler_calls\<close> lists the calls of \<open>handle_core_exception\<close>, each with its two
  arguments, the core id and the \<open>what()\<close> of the exception.
\<close>

record MultiCoreEngine =
  cores :: "Core list"
  execute_trace :: "Task list"
  handler_calls :: "(size_t \<times> string) list"

text \<open>
  The loop of \<open>MultiCoreEngine::find_least_loaded_core\<close> (lines 257-265) from index \<open>i\<close>
  on, over the cores not yet visited.
\<close>

fun mce_least_loop :: "Core list \<Rightarrow> size_t \<Rightarrow> size_t \<Rightarrow> size_t \<Rightarrow> size_t" where
  "mce_least_loop [] i min_load target_core = target_core"
| "mce_least_loop (c # cs) i min_load target_core =
     (if \<not> running c then mce_least_loop cs (i + 1) min_load target_core
      else if length (task_queue c) < min_load
           then mce_least_loop cs (i + 1) (length (task_queue c)) i
           else mce_least_loop cs (i + 1) min_load target_core)"

definition mce_find_least_loaded_core :: "MultiCoreEngine \<Rightarrow> size_t" where
  "mce_find_least_loaded_core e = mce_least_loop (cores e) 0 SIZE_MAX SIZE_MAX"

text \<open>
  Modelled from the spec: \<open>MultiCoreEngine::submit_task(core_id, task)\<close> has a
  declaration and callers but no body in the sources; by the spec a submitted task is pushed
  onto the chosen core's queue. An index outside \<open>cores_\<close> is a bad access.
\<close>

definition mce_submit_task :: "MultiCoreEngine \<Rightarrow> size_t \<Rightarrow> Task \<Rightarrow> (unit, MultiCoreEngine) outcome" where
  "mce_submit_task e core_id task =
     (if core_id < length (cores e)
      then Returns () (e\<lparr>cores := (cores e)[core_id :=
                           (cores e ! core_id)\<lparr>task_queue := task_queue (cores e ! core_id) @ [task]\<rparr>]\<rparr>)
      else BadDeref)"

text \<open>
  The first loop of \<open>MultiCoreEngine::redistribute_tasks\<close> (lines 237-242): the result is
  the collected \<open>failed_tasks\<close> and the cores after the drains.
\<close>

fun collect_failed :: "Core list \<Rightarrow> Task list \<times> Core list" where
  "collect_failed [] = ([], [])"
| "collect_failed (c # cs) =
     (let (failed_tasks, cs') = collect_failed cs
      in if \<not> running c then (task_queue c @ failed_tasks, c\<lparr>task_queue := []\<rparr> # cs')
         else (failed_tasks, c # cs'))"

text \<open>The second loop (lines 245-250).\<close>

fun mce_redistribute_loop :: "MultiCoreEngine \<Rightarrow> Task list \<Rightarrow> (unit, MultiCoreEngine) outcome" where
  "mce_redistribute_loop e [] = Returns () e"
| "mce_redistribute_loop e (task # failed_tasks) =
     (if mce_find_least_loaded_core e \<noteq> SIZE_MAX then
        (case mce_submit_task e (mce_find_least_loaded_core e) task of
           Returns u e1 \<Rightarrow> mce_redistribute_loop e1 failed_tasks
         | Throws w e1 \<Rightarrow> Throws w e1
         | Deadlock \<Rightarrow> Deadlock
         | BadDeref \<Rightarrow> BadDeref
         | DivByZero \<Rightarrow> DivByZero)
      else mce_redistribute_loop e failed_tasks)"

definition mce_redistribute_tasks :: "MultiCoreEngine \<Rightarrow> (unit, MultiCoreEngine) outcome" where
  "mce_redistribute_tasks e =
     (let (failed_tasks, cs) = collect_failed (cores e)
      in mce_redistribute_loop (e\<lparr>cores := cs\<rparr>) failed_tasks)"

text \<open>
  Modelled from the spec: \<open>MultiCoreEngine::handle_core_exception(core_id, e)\<close> is
  declared (MultiCoreEngine.h, line 126) and called but has no body in the sources. By
  the spec the worker goes on after a failing task: the call returns and leaves \<open>cores_\<close>
  as it is. It is recorded with the two arguments it is given; the task that failed is
  not among them.
\<close>

definition handle_core_exception :: "MultiCoreEngine \<Rightarrow> size_t \<Rightarrow> string \<Rightarrow> MultiCoreEngine" where
  "handle_core_exception e core_id what =
     e\<lparr>handler_calls := handler_calls e @ [(core_id, what)]\<rparr>"

text \<open>
  What \<open>task->execute()\<close> may throw: an object of a class derived from \<open>std::exception\<close>,
  with its \<open>what()\<close>, or an object of any other type, with a description.
\<close>

datatype thrown = StdException string | OtherThrown string

text \<open>
  The task loop of \<open>worker_thread\<close> (lines 130-137). \<open>execute\<close> stands for
  \<open>task->execute()\<close>: \<open>None\<close> when the call returns, \<open>Some\<close> of the thrown object
  otherwise. The clause \<open>catch (const std::exception& e)\<close> matches a \<open>StdException\<close>;
  anything else leaves the loop and \<open>worker_thread\<close> as an exception, with the rest of
  the queue where it is.
\<close>

function process_tasks ::
  "(Task \<Rightarrow> thrown option) \<Rightarrow> MultiCoreEngine \<Rightarrow> size_t \<Rightarrow> (unit, MultiCoreEngine) outcome" where
  "process_tasks execute e core_id =
     (if length (cores e) \<le> core_id then BadDeref
      else (case task_queue (cores e ! core_id) of
              [] \<Rightarrow> Returns () e
            | task # rest \<Rightarrow>
                (case execute task of
                   None \<Rightarrow>
                     process_tasks execute
                       (e\<lparr>cores := (cores e)[core_id := (cores e ! core_id)\<lparr>task_queue := rest\<rparr>],
                          execute_trace := execute_trace e @ [task]\<rparr>) core_id
                 | Some (StdException what) \<Rightarrow>
                     process_tasks execute
                       (handle_core_exception
                          (e\<lparr>cores := (cores e)[core_id := (cores e ! core_id)\<lparr>task_queue := rest\<rparr>],
                             execute_trace := execute_trace e @ [task]\<rparr>) core_id what) core_id
                 | Some (OtherThrown d) \<Rightarrow>
                     Throws d
                       (e\<lparr>cores := (cores e)[core_id := (cores e ! core_id)\<lparr>task_queue := rest\<rparr>],
                          execute_trace := execute_trace e @ [task]\<rparr>))))"
  by pat_completeness auto
termination
  by (relation "measure (\<lambda>(execute, e, core_id). length (task_queue (cores e ! core_id)))")
     (auto simp: handle_core_exception_def)

section \<open>States and notions used in the statements\<close>


text \<open>A metrics entry whose usages are written as decimal literals.\<close>

definition core_sample :: "real \<Rightarrow> real \<Rightarrow> real \<Rightarrow> bool \<Rightarrow> CoreMetrics" where
  "core_sample cpu mem net healthy =
     \<lparr>metrics = \<lparr>cpu_usage = to_double cpu, memory_usage = to_double mem,
                 network_usage = to_double net, queue_size = 0, active_tasks = 0\<rparr>,
      last_update = 0, is_healthy = healthy\<rparr>"

definition task_on :: "size_t \<Rightarrow> Task" where
  "task_on c = \<lparr>task_ident = 0, type = COMPUTE, priority = NORMAL, task_data = [], assigned_core = c\<rparr>"

text \<open>A manager after \<open>initialize_core\<close> for the cores 0 to \<open>n - 1\<close>.\<close>

definition manager_with :: "nat \<Rightarrow> Manager" where
  "manager_with n =
     \<lparr>manager_cores = replicate n True, manager_tasks = [], manager_task_status = [],
      manager_core_calls = []\<rparr>"

text \<open>A balancer with its four collaborators registered (the two managers with four
  cores each), the given task table (every task Pending) and the given metrics table.\<close>

definition balancer_with :: "(size_t \<times> Task) list \<Rightarrow> (size_t \<times> CoreMetrics) list \<Rightarrow> LoadBalancer" where
  "balancer_with ts cm =
     \<lparr>compute_engine = Some [], blockchain_engine = Some [],
      network_manager = Some (manager_with 4), storage_manager = Some (manager_with 4),
      tasks = ts, task_status = map (\<lambda>(k, t). (k, PENDING)) ts, task_metrics = [], task_mutex = False,
      core_metrics = cm, metrics_mutex = False\<rparr>"

text \<open>Scenario A of the spec: cores 0, 1, 2 with cpu 0.9, 0.2, 0.3, everything else 0;
  one task is assigned to core 0.\<close>

definition scenario_A :: LoadBalancer where
  "scenario_A = balancer_with [(1, task_on 0)]
      [(0, core_sample (9 / 10) 0 0 True), (1, core_sample (2 / 10) 0 0 True),
       (2, core_sample (3 / 10) 0 0 True)]"

text \<open>Scenario B of the spec: core 3 holds five tasks and is unhealthy in the table;
  cores 0, 1 and 2 are healthy.\<close>

definition scenario_B :: LoadBalancer where
  "scenario_B = balancer_with
      [(1, task_on 3), (2, task_on 3), (3, task_on 3), (4, task_on 3), (5, task_on 3)]
      [(0, core_sample (1 / 10) 0 0 True), (1, core_sample (2 / 10) 0 0 True),
       (2, core_sample (3 / 10) 0 0 True), (3, core_sample (5 / 10) 0 0 False)]"

text \<open>Two healthy idle cores; core 1 comes first in the iteration order (the order
  \<open>libstdc++\<close> gives after inserting key 0 and then key 1).\<close>

definition tie_snapshot :: LoadBalancer where
  "tie_snapshot = balancer_with [] [(1, core_sample 0 0 0 True), (0, core_sample 0 0 0 True)]"

text \<open>Core 0 with cpu 0.4, iterated first, and core 1 with cpu 0.1 and network 0.4: as
  real numbers both scores are 0.16, as doubles they are 0.16000000000000003 and 0.16.\<close>

definition rounding_snapshot :: LoadBalancer where
  "rounding_snapshot = balancer_with []
      [(0, core_sample (4 / 10) 0 0 True), (1, core_sample (1 / 10) 0 (4 / 10) True)]"




text \<open>
  The selection as the spec words it, for comparison with the code: among the healthy
  cores the least composite score, and among equal scores the lowest \<open>core_id\<close>.
\<close>

definition spec_better :: "size_t \<times> CoreMetrics \<Rightarrow> size_t \<times> CoreMetrics \<Rightarrow> bool" where
  "spec_better a b \<longleftrightarrow> dless (load_of (snd a)) (load_of (snd b)) \<or>
                       (load_of (snd a) = load_of (snd b) \<and> fst a < fst b)"

definition spec_least_loaded_core :: "(size_t \<times> CoreMetrics) list \<Rightarrow> size_t option" where
  "spec_least_loaded_core cm =
     (case filter (\<lambda>x. is_healthy (snd x)) cm of
        [] \<Rightarrow> None
      | h # hs \<Rightarrow> Some (fst (fold (\<lambda>a b. if spec_better a b then a else b) hs h)))"


text \<open>Two calls in a row: the second starts in the state the first returned.\<close>

definition twice :: "('s \<Rightarrow> (unit, 's) outcome) \<Rightarrow> 's \<Rightarrow> (unit, 's) outcome" where
  "twice call s =
     (case call s of
        Returns u s1 \<Rightarrow> call s1
      | Throws w s1 \<Rightarrow> Throws w s1
      | Deadlock \<Rightarrow> Deadlock
      | BadDeref \<Rightarrow> BadDeref
      | DivByZero \<Rightarrow> DivByZero)"

text \<open>The queue after the first real node \<open>n\<close> has become the new dummy: \<open>head_\<close> is
  \<open>n\<close>, the old dummy is deleted, and a \<open>tail_\<close> that still pointed at the old dummy
  has been advanced.\<close>

definition after_dequeue :: "'a LockFreeQueue \<Rightarrow> addr \<Rightarrow> 'a LockFreeQueue" where
  "after_dequeue q n =
     q\<lparr>tail := (if head q = tail q then n else tail q), head := n,
       nodes := (nodes q)(head q := None)\<rparr>"

text \<open>A \<open>LockFreeQueue<int>\<close> holding only its dummy node, and the queue after
  \<open>enqueue(42)\<close> with the new node at address 1.\<close>

definition empty_queue :: "int LockFreeQueue" where
  "empty_queue = \<lparr>nodes = [0 \<mapsto> \<lparr>data = 0, next = None\<rparr>], head = 0, tail = 0\<rparr>"

definition one_item_queue :: "int LockFreeQueue" where
  "one_item_queue =
     \<lparr>nodes = [0 \<mapsto> \<lparr>data = 0, next = Some 1\<rparr>, 1 \<mapsto> \<lparr>data = 42, next = None\<rparr>],
      head = 0, tail = 1\<rparr>"

text \<open>The calls of \<open>handle_core_exception\<close> made while the tasks \<open>ts\<close> are executed on
  \<open>core_id\<close>: one for every task whose \<open>execute()\<close> throws a \<open>std::exception\<close>, in order.\<close>

definition raised_calls ::
  "(Task \<Rightarrow> thrown option) \<Rightarrow> size_t \<Rightarrow> Task list \<Rightarrow> (size_t \<times> string) list" where
  "raised_calls execute core_id ts =
     concat (map (\<lambda>t. case execute t of
                         Some (StdException what) \<Rightarrow> [(core_id, what)]
                       | Some (OtherThrown d) \<Rightarrow> []
                       | None \<Rightarrow> []) ts)"

text \<open>What \<open>execute()\<close> throws, if it throws, is a \<open>std::exception\<close>.\<close>

definition std_only :: "(Task \<Rightarrow> thrown option) \<Rightarrow> Task \<Rightarrow> bool" where
  "std_only execute t = (case execute t of Some (OtherThrown d) \<Rightarrow> False
                         | Some (StdException what) \<Rightarrow> True | None \<Rightarrow> True)"

text \<open>All tasks held by the queues of the given cores, with multiplicity.\<close>

definition queued_tasks :: "Core list \<Rightarrow> Task multiset" where
  "queued_tasks cs = mset (concat (map task_queue cs))"

definition sample_task :: "nat \<Rightarrow> Task" where
  "sample_task n = \<lparr>task_ident = n, type = COMPUTE, priority = NORMAL, task_data = [], assigned_core = 0\<rparr>"

definition engine_with :: "Core list \<Rightarrow> MultiCoreEngine" where
  "engine_with cs = \<lparr>cores = cs, execute_trace = [], handler_calls = []\<rparr>"

text \<open>One running core with three queued tasks. The second task's \<open>execute()\<close> throws:
  a \<open>std::runtime_error\<close> under \<open>fails_on_2\<close>, an \<open>int\<close> under \<open>escapes_on_2\<close>.\<close>

definition worker_example :: MultiCoreEngine where
  "worker_example = engine_with
     [\<lparr>running = True, paused = False, task_queue = [sample_task 1, sample_task 2, sample_task 3]\<rparr>]"

definition fails_on_2 :: "Task \<Rightarrow> thrown option" where
  "fails_on_2 t = (if task_ident t = 2 then Some (StdException ''boom'') else None)"

definition escapes_on_2 :: "Task \<Rightarrow> thrown option" where
  "escapes_on_2 t = (if task_ident t = 2 then Some (OtherThrown ''int'') else None)"

text \<open>Core 1 has stopped with two tasks queued; cores 0 and 2 are running.\<close>

definition mixed_engine :: MultiCoreEngine where
  "mixed_engine = engine_with
     [\<lparr>running = True, paused = False, task_queue = [sample_task 1]\<rparr>,
      \<lparr>running = False, paused = False, task_queue = [sample_task 2, sample_task 3]\<rparr>,
      \<lparr>running = True, paused = False, task_queue = []\<rparr>]"

text \<open>No core is running (as before \<open>start()\<close> or at the end of \<open>stop()\<close>); core 0 holds
  a task.\<close>

definition stopped_engine :: MultiCoreEngine where
  "stopped_engine = engine_with
     [\<lparr>running = False, paused = False, task_queue = [sample_task 1]\<rparr>,
      \<lparr>running = False, paused = False, task_queue = []\<rparr>]"

subsection \<open>The system and its operations\<close>

text \<open>
  The balancer, the compute engine, and the tasks submitted so far. An operation is a
  call that returns: \<open>Submit\<close> is \<open>MultiCoreEngine::submit_task\<close>, \<open>Execute\<close> the task loop
  of a core's worker, \<open>Rebalance\<close> is \<open>LoadBalancer::rebalance_load\<close>, \<open>MarkUnhealthy\<close> is
  \<open>LoadBalancer::mark_core_unhealthy\<close> (the public way into \<open>handle_core_failure\<close>), and
  \<open>Redistribute\<close> is \<open>MultiCoreEngine::redistribute_tasks\<close>. A call that does not return
  normally has no successor state.
\<close>

record System =
  balancer :: LoadBalancer
  fleet :: MultiCoreEngine
  submitted :: "Task multiset"

datatype operation =
    Submit size_t Task
  | Execute size_t
  | Rebalance
  | MarkUnhealthy size_t
  | Redistribute

definition apply_operation :: "(Task \<Rightarrow> thrown option) \<Rightarrow> System \<Rightarrow> operation \<Rightarrow> System option" where
  "apply_operation execute s op =
     (case op of
        Submit core_id task \<Rightarrow>
          (case mce_submit_task (fleet s) core_id task of
             Returns u f \<Rightarrow> Some (s\<lparr>fleet := f, submitted := submitted s + {#task#}\<rparr>)
           | Throws w f \<Rightarrow> None | Deadlock \<Rightarrow> None | BadDeref \<Rightarrow> None | DivByZero \<Rightarrow> None)
      | Execute core_id \<Rightarrow>
          (case process_tasks execute (fleet s) core_id of
             Returns u f \<Rightarrow> Some (s\<lparr>fleet := f\<rparr>)
           | Throws w f \<Rightarrow> None | Deadlock \<Rightarrow> None | BadDeref \<Rightarrow> None | DivByZero \<Rightarrow> None)
      | Rebalance \<Rightarrow>
          (case rebalance_load (balancer s) of
             Returns u b \<Rightarrow> Some (s\<lparr>balancer := b\<rparr>)
           | Throws w b \<Rightarrow> None | Deadlock \<Rightarrow> None | BadDeref \<Rightarrow> None | DivByZero \<Rightarrow> None)
      | MarkUnhealthy core_id \<Rightarrow>
          (case mark_core_unhealthy (balancer s) core_id of
             Returns u b \<Rightarrow> Some (s\<lparr>balancer := b\<rparr>)
           | Throws w b \<Rightarrow> None | Deadlock \<Rightarrow> None | BadDeref \<Rightarrow> None | DivByZero \<Rightarrow> None)
      | Redistribute \<Rightarrow>
          (case mce_redistribute_tasks (fleet s) of
             Returns u f \<Rightarrow> Some (s\<lparr>fleet := f\<rparr>)
           | Throws w f \<Rightarrow> None | Deadlock \<Rightarrow> None | BadDeref \<Rightarrow> None | DivByZero \<Rightarrow> None))"

fun run :: "(Task \<Rightarrow> thrown option) \<Rightarrow> System \<Rightarrow> operation list \<Rightarrow> System option" where
  "run execute s [] = Some s"
| "run execute s (op # ops) =
     (case apply_operation execute s op of None \<Rightarrow> None | Some s1 \<Rightarrow> run execute s1 ops)"

text \<open>
  Every submitted task that has not been executed is on exactly one queue: the tasks on
  the queues together with the tasks executed are the tasks submitted, with
  multiplicity. (A task is popped and executed within one \<open>Execute\<close>.)
\<close>

definition every_task_held_once :: "System \<Rightarrow> bool" where
  "every_task_held_once s \<longleftrightarrow>
     queued_tasks (cores (fleet s)) + mset (execute_trace (fleet s)) = submitted s"

text \<open>The balancer of \<open>tie_snapshot\<close> beside the engine of \<open>mixed_engine\<close>, whose three
  queued tasks are the tasks submitted.\<close>

definition system_example :: System where
  "system_example =
     \<lparr>balancer = tie_snapshot, fleet = mixed_engine,
      submitted = {#sample_task 1, sample_task 2, sample_task 3#}\<rparr>"

text \<open>The balancer of \<open>tie_snapshot\<close> beside the engine of \<open>stopped_engine\<close>, whose one
  queued task is the task submitted.\<close>

definition stopped_system :: System where
  "stopped_system =
     \<lparr>balancer = tie_snapshot, fleet = stopped_engine, submitted = {#sample_task 1#}\<rparr>"

section \<open>Double arithmetic\<close>

lemma dless_trans: "dless a b \<Longrightarrow> dless b c \<Longrightarrow> dless a c"
  by (cases a; cases b; cases c) simp_all

lemma dless_skipped: "\<not> dless y m \<Longrightarrow> dless x m \<Longrightarrow> y = NaN \<or> dless x y"
  by (cases x; cases y; cases m) simp_all

lemma dless_irrefl: "\<not> dless a a"
  by (cases a) simp_all

lemma pow2_powr: "pow2 k = 2 powr (of_int k)"
  unfolding pow2_def
  by (cases "0 \<le> k") (auto simp: powr_realpow [symmetric] powr_minus field_simps)

lemma pow2_pos: "0 < pow2 k"
  by (simp add: pow2_def)

lemma pow2_nonneg_int: "0 \<le> k \<Longrightarrow> pow2 k = of_int (2 ^ nat k)"
  by (simp add: pow2_def)

lemma pow2_neg: "pow2 (- k) = 1 / pow2 k"
  by (simp add: pow2_powr powr_minus field_simps)

text \<open>\<open>ilog2\<close> is the floor of the binary logarithm.\<close>

lemma ilog2_log:
  assumes "0 < y"
  shows "ilog2 y = \<lfloor>log 2 y\<rfloor>"
proof -
  define k where "k = \<lfloor>log 2 y\<rfloor>"
  have b: "pow2 k \<le> y" "y < pow2 (k + 1)"
    using assms floor_log_eq_powr_iff [of y 2 k] by (simp_all add: k_def pow2_powr)
  show ?thesis
  proof (cases "1 \<le> y")
    case True
    then have "0 \<le> log 2 y" by simp
    then have k0: "0 \<le> k" by (simp add: k_def)
    have pos: "0 < \<lfloor>y\<rfloor>" using True by linarith
    have "of_int (2 ^ nat k) \<le> y" using b(1) k0 by (simp add: pow2_nonneg_int)
    then have "2 ^ nat k \<le> \<lfloor>y\<rfloor>" by (simp only: le_floor_iff)
    then have l: "pow2 k \<le> of_int \<lfloor>y\<rfloor>" using k0 by (simp add: pow2_nonneg_int)
    have u: "of_int \<lfloor>y\<rfloor> < pow2 (k + 1)" using b(2) by linarith
    have "\<lfloor>log 2 (of_int \<lfloor>y\<rfloor>)\<rfloor> = k"
      using pos l u floor_log_eq_powr_iff [of "of_int \<lfloor>y\<rfloor>" 2 k] by (simp add: pow2_powr)
    then show ?thesis using True pos by (simp add: ilog2_def bitlen_alt_def k_def)
  next
    case False
    then have y1: "y < 1" by simp
    with assms have "log 2 y < 0" by simp
    then have k0: "k < 0" by (simp add: k_def)
    let ?m = "\<lceil>1 / y\<rceil>"
    have "1 / y \<le> 1 / pow2 k"
      using b(1) pow2_pos [of k] by (intro divide_left_mono) simp_all
    moreover have "1 / pow2 (k + 1) < 1 / y"
      using b(2) assms pow2_pos [of "k + 1"] by (intro divide_strict_left_mono) simp_all
    ultimately have z: "1 / y \<le> pow2 (- k)" "pow2 (- (k + 1)) < 1 / y"
      by (simp_all only: pow2_neg)
    have "1 / y \<le> of_int (2 ^ nat (- k))" using z(1) k0 by (simp add: pow2_nonneg_int)
    then have "?m \<le> 2 ^ nat (- k)" by (simp only: ceiling_le_iff)
    then have "?m - 1 < 2 ^ nat (- k)" by simp
    then have "(of_int (?m - 1) :: real) < of_int (2 ^ nat (- k))" by (simp only: of_int_less_iff)
    then have u: "of_int (?m - 1) < pow2 (- k)" using k0 by (simp only: pow2_nonneg_int)
    have "of_int (2 ^ nat (- (k + 1))) < 1 / y" using z(2) k0 by (simp add: pow2_nonneg_int)
    then have "2 ^ nat (- (k + 1)) < ?m" by (simp only: less_ceiling_iff)
    then have "2 ^ nat (- (k + 1)) \<le> ?m - 1" by simp
    then have "(of_int (2 ^ nat (- (k + 1))) :: real) \<le> of_int (?m - 1)"
      by (simp only: of_int_le_iff)
    then have l: "pow2 (- (k + 1)) \<le> of_int (?m - 1)"
      using k0 by (simp only: pow2_nonneg_int)
    have pos: "0 < ?m - 1"
    proof -
      have "(0::int) < 2 ^ nat (- (k + 1))" by simp
      also have "\<dots> \<le> ?m - 1" by fact
      finally show ?thesis .
    qed
    have "\<lfloor>log 2 (of_int (?m - 1))\<rfloor> = - (k + 1)"
      using pos l u floor_log_eq_powr_iff [of "of_int (?m - 1)" 2 "- (k + 1)"]
      by (simp add: pow2_powr)
    then show ?thesis using False pos by (simp add: ilog2_def bitlen_alt_def k_def)
  qed
qed

lemma binade_eval:
  assumes "pow2 e \<le> \<bar>x\<bar>" and "\<bar>x\<bar> < pow2 (e + 1)"
  shows "binade x = max e (- 1022)"
proof -
  have "0 < pow2 e" by (simp add: pow2_def)
  with assms(1) have pos: "0 < \<bar>x\<bar>" by linarith
  have "\<lfloor>log 2 \<bar>x\<bar>\<rfloor> = e"
    using assms pos by (simp add: floor_log_eq_powr_iff pow2_powr)
  then show ?thesis using ilog2_log [OF pos] by (simp add: binade_def)
qed

text \<open>
  How a rounding is computed: for \<open>x\<close> in the binade of \<open>e\<close>, \<open>to_double x\<close> is the
  multiple \<open>n\<close> of \<open>2 ^ (e - 52)\<close> nearest to it.
\<close>

lemma to_double_eval:
  assumes "pow2 e \<le> \<bar>x\<bar>" and "\<bar>x\<bar> < pow2 (e + 1)" and "- 1022 \<le> e"
    and "round_half_even (\<bar>x\<bar> / pow2 (e - 52)) = n"
    and "of_int n * pow2 (e - 52) < 2 ^ 1024"
  shows "to_double x = Finite (sgn x * (of_int n * pow2 (e - 52)))"
proof -
  have "0 < pow2 e" by (simp add: pow2_def)
  with assms(1) have "x \<noteq> 0" by auto
  moreover have "binade x = e" using binade_eval [OF assms(1,2)] assms(3) by simp
  ultimately show ?thesis using assms(4,5) by (simp add: to_double_def)
qed

lemma to_double_0: "to_double 0 = Finite 0"
  by (simp add: to_double_def)

text \<open>The literals 0.4, 0.3, 0.8, 0.9, 0.2 and 0.1 as doubles.\<close>

lemma to_double_04:
  "to_double (4 / 10) = Finite (3602879701896397 / 9007199254740992)"
  "to_double (2 / 5) = Finite (3602879701896397 / 9007199254740992)"
  using to_double_eval [of "- 2" "4 / 10" 7205759403792794]
  by (simp_all add: pow2_def round_half_even_def)

lemma to_double_03:
  "to_double (3 / 10) = Finite (5404319552844595 / 18014398509481984)"
  using to_double_eval [of "- 2" "3 / 10" 5404319552844595]
  by (simp_all add: pow2_def round_half_even_def)

lemma to_double_08:
  "to_double (8 / 10) = Finite (3602879701896397 / 4503599627370496)"
  "to_double (4 / 5) = Finite (3602879701896397 / 4503599627370496)"
  using to_double_eval [of "- 1" "8 / 10" 7205759403792794]
  by (simp_all add: pow2_def round_half_even_def)

lemma to_double_09:
  "to_double (9 / 10) = Finite (8106479329266893 / 9007199254740992)"
  using to_double_eval [of "- 1" "9 / 10" 8106479329266893]
  by (simp_all add: pow2_def round_half_even_def)

lemma to_double_02:
  "to_double (2 / 10) = Finite (3602879701896397 / 18014398509481984)"
  "to_double (1 / 5) = Finite (3602879701896397 / 18014398509481984)"
  using to_double_eval [of "- 3" "2 / 10" 7205759403792794]
  by (simp_all add: pow2_def round_half_even_def)

lemma to_double_01:
  "to_double (1 / 10) = Finite (3602879701896397 / 36028797018963968)"
  using to_double_eval [of "- 4" "1 / 10" 7205759403792794]
  by (simp_all add: pow2_def round_half_even_def)

text \<open>
  The scores of the two cores of \<open>rounding_snapshot\<close>, operation by operation:
  \<open>0.4 * 0.4 + 0 * 0.3 + 0 * 0.3\<close> is 0.16000000000000003 and
  \<open>0.1 * 0.4 + 0 * 0.3 + 0.4 * 0.3\<close> is 0.16.
\<close>

lemma score_core0_product:
  "dmul (Finite (3602879701896397 / 9007199254740992)) (Finite (3602879701896397 / 9007199254740992)) = Finite (1441151880758559 / 9007199254740992)"
  using to_double_eval [of "- 3" "(3602879701896397 / 9007199254740992) * (3602879701896397 / 9007199254740992)" 5764607523034236]
  by (simp add: pow2_def round_half_even_def)

lemma score_core0_sum:
  "dadd (Finite (1441151880758559 / 9007199254740992)) (Finite (0)) = Finite (1441151880758559 / 9007199254740992)"
  using to_double_eval [of "- 3" "(1441151880758559 / 9007199254740992) + (0)" 5764607523034236]
  by (simp add: pow2_def round_half_even_def)

lemma score_core1_product_cpu:
  "dmul (Finite (3602879701896397 / 36028797018963968)) (Finite (3602879701896397 / 9007199254740992)) = Finite (1441151880758559 / 36028797018963968)"
  using to_double_eval [of "- 5" "(3602879701896397 / 36028797018963968) * (3602879701896397 / 9007199254740992)" 5764607523034236]
  by (simp add: pow2_def round_half_even_def)

lemma score_core1_sum_mem:
  "dadd (Finite (1441151880758559 / 36028797018963968)) (Finite (0)) = Finite (1441151880758559 / 36028797018963968)"
  using to_double_eval [of "- 5" "(1441151880758559 / 36028797018963968) + (0)" 5764607523034236]
  by (simp add: pow2_def round_half_even_def)

lemma score_core1_product_net:
  "dmul (Finite (3602879701896397 / 9007199254740992)) (Finite (5404319552844595 / 18014398509481984)) = Finite (1080863910568919 / 9007199254740992)"
  using to_double_eval [of "- 4" "(3602879701896397 / 9007199254740992) * (5404319552844595 / 18014398509481984)" 8646911284551352]
  by (simp add: pow2_def round_half_even_def)

lemma score_core1_sum_net:
  "dadd (Finite (1441151880758559 / 36028797018963968)) (Finite (1080863910568919 / 9007199254740992)) = Finite (5764607523034235 / 36028797018963968)"
  using to_double_eval [of "- 3" "(1441151880758559 / 36028797018963968) + (1080863910568919 / 9007199254740992)" 5764607523034235]
  by (simp add: pow2_def round_half_even_def)

lemma dmul_zero: "dmul (Finite 0) (Finite y) = Finite 0"
  by (simp add: to_double_def)

lemma dadd_zero: "dadd (Finite 0) (Finite 0) = Finite 0"
  by (simp add: to_double_def)

lemma is_healthy_core_sample [simp]: "is_healthy (core_sample cpu mem net h) = h"
  by (simp add: core_sample_def)

lemma load_of_idle: "load_of (core_sample 0 0 0 h) = Finite 0"
  by (simp add: load_of_def core_sample_def to_double_0 to_double_04 to_double_03
      dmul_zero dadd_zero del: dmul.simps dadd.simps)

lemma load_of_rounding_core0:
  "load_of (core_sample (4 / 10) 0 0 h) = Finite (1441151880758559 / 9007199254740992)"
  "load_of (core_sample (2 / 5) 0 0 h) = Finite (1441151880758559 / 9007199254740992)"
  by (simp_all add: load_of_def core_sample_def to_double_0 to_double_04 to_double_03
      dmul_zero score_core0_product score_core0_sum del: dmul.simps dadd.simps)

lemma load_of_rounding_core1:
  "load_of (core_sample (1 / 10) 0 (4 / 10) h) = Finite (5764607523034235 / 36028797018963968)"
  "load_of (core_sample (1 / 10) 0 (2 / 5) h) = Finite (5764607523034235 / 36028797018963968)"
  by (simp_all add: load_of_def core_sample_def to_double_0 to_double_04 to_double_03 to_double_01
      dmul_zero score_core1_product_cpu score_core1_sum_mem score_core1_product_net
      score_core1_sum_net del: dmul.simps dadd.simps)

lemma is_overloaded_scenario_A:
  "is_overloaded (core_sample (9 / 10) 0 0 h)"
  "\<not> is_overloaded (core_sample (2 / 10) 0 0 h)"
  "\<not> is_overloaded (core_sample (1 / 5) 0 0 h)"
  "\<not> is_overloaded (core_sample (3 / 10) 0 0 h)"
  by (simp_all add: is_overloaded_def core_sample_def to_double_0 to_double_08 to_double_09
      to_double_02 to_double_03)

section \<open>Core selection\<close>

declare mark_core_unhealthy.simps [simp del] handle_core_failure.simps [simp del]


lemma least_loaded_loop_cases:
  "(least_loaded_loop xs c m = c \<and> (\<forall>x\<in>set xs. is_healthy (snd x) \<longrightarrow> \<not> dless (load_of (snd x)) m)) \<or>
   (\<exists>pre x post. xs = pre @ (least_loaded_loop xs c m, x) # post \<and> is_healthy x \<and> dless (load_of x) m \<and>
       (\<forall>y\<in>set pre. is_healthy (snd y) \<longrightarrow> load_of (snd y) = NaN \<or> dless (load_of x) (load_of (snd y))) \<and>
       (\<forall>y\<in>set post. is_healthy (snd y) \<longrightarrow> \<not> dless (load_of (snd y)) (load_of x)))"
proof (induction xs arbitrary: c m)
  case Nil
  show ?case by simp
next
  case (Cons a xs)
  obtain k y where a: "a = (k, y)" by (cases a)
  show ?case
  proof (cases "is_healthy y")
    case False
    from Cons.IH [of c m] show ?thesis
    proof (elim disjE exE conjE)
      assume "least_loaded_loop xs c m = c"
        "\<forall>x\<in>set xs. is_healthy (snd x) \<longrightarrow> \<not> dless (load_of (snd x)) m"
      with False a show ?thesis by simp
    next
      fix pre x post
      assume h: "xs = pre @ (least_loaded_loop xs c m, x) # post" "is_healthy x" "dless (load_of x) m"
        "\<forall>y\<in>set pre. is_healthy (snd y) \<longrightarrow> load_of (snd y) = NaN \<or> dless (load_of x) (load_of (snd y))"
        "\<forall>y\<in>set post. is_healthy (snd y) \<longrightarrow> \<not> dless (load_of (snd y)) (load_of x)"
      have r: "least_loaded_loop (a # xs) c m = least_loaded_loop xs c m" using False a by simp
      have "a # xs = (a # pre) @ (least_loaded_loop (a # xs) c m, x) # post"
        using h(1) r by simp
      moreover have "\<forall>y\<in>set (a # pre). is_healthy (snd y) \<longrightarrow>
                        load_of (snd y) = NaN \<or> dless (load_of x) (load_of (snd y))"
        using h(4) False a by simp
      ultimately show ?thesis using h(2,3,5) by blast
    qed
  next
    case True
    show ?thesis
    proof (cases "dless (load_of y) m")
      case lt: True
      have r: "least_loaded_loop (a # xs) c m = least_loaded_loop xs k (load_of y)"
        using True lt a by simp
      from Cons.IH [of k "load_of y"] show ?thesis
      proof (elim disjE exE conjE)
        assume h: "least_loaded_loop xs k (load_of y) = k"
          "\<forall>x\<in>set xs. is_healthy (snd x) \<longrightarrow> \<not> dless (load_of (snd x)) (load_of y)"
        have "a # xs = [] @ (least_loaded_loop (a # xs) c m, y) # xs" using r h(1) a by simp
        moreover have "\<forall>z\<in>set []. is_healthy (snd z) \<longrightarrow>
            load_of (snd z) = NaN \<or> dless (load_of y) (load_of (snd (z :: nat \<times> CoreMetrics)))"
          by simp
        ultimately show ?thesis using True lt h(2) by blast
      next
        fix pre x post
        assume h: "xs = pre @ (least_loaded_loop xs k (load_of y), x) # post" "is_healthy x"
          "dless (load_of x) (load_of y)"
          "\<forall>z\<in>set pre. is_healthy (snd z) \<longrightarrow> load_of (snd z) = NaN \<or> dless (load_of x) (load_of (snd z))"
          "\<forall>z\<in>set post. is_healthy (snd z) \<longrightarrow> \<not> dless (load_of (snd z)) (load_of x)"
        have "a # xs = (a # pre) @ (least_loaded_loop (a # xs) c m, x) # post"
          using h(1) r by simp
        moreover have "\<forall>z\<in>set (a # pre). is_healthy (snd z) \<longrightarrow>
                          load_of (snd z) = NaN \<or> dless (load_of x) (load_of (snd z))"
          using h(3,4) a by simp
        moreover have "dless (load_of x) m" using h(3) lt by (rule dless_trans)
        ultimately show ?thesis using h(2,5) by blast
      qed
    next
      case ge: False
      have r: "least_loaded_loop (a # xs) c m = least_loaded_loop xs c m"
        using True ge a by simp
      from Cons.IH [of c m] show ?thesis
      proof (elim disjE exE conjE)
        assume "least_loaded_loop xs c m = c"
          "\<forall>x\<in>set xs. is_healthy (snd x) \<longrightarrow> \<not> dless (load_of (snd x)) m"
        with ge a r show ?thesis by simp
      next
        fix pre x post
        assume h: "xs = pre @ (least_loaded_loop xs c m, x) # post" "is_healthy x" "dless (load_of x) m"
          "\<forall>z\<in>set pre. is_healthy (snd z) \<longrightarrow> load_of (snd z) = NaN \<or> dless (load_of x) (load_of (snd z))"
          "\<forall>z\<in>set post. is_healthy (snd z) \<longrightarrow> \<not> dless (load_of (snd z)) (load_of x)"
        have "a # xs = (a # pre) @ (least_loaded_loop (a # xs) c m, x) # post"
          using h(1) r by simp
        moreover have "load_of y = NaN \<or> dless (load_of x) (load_of y)"
          using ge h(3) by (rule dless_skipped)
        then have "\<forall>z\<in>set (a # pre). is_healthy (snd z) \<longrightarrow>
                          load_of (snd z) = NaN \<or> dless (load_of x) (load_of (snd z))"
          using h(4) a by simp
        ultimately show ?thesis using h(2,3,5) by blast
      qed
    qed
  qed
qed


text \<open>
  On \<open>rounding_snapshot\<close> the two scores differ in the last bit, and the code's answer is
  core 1, the core visited second; on real numbers the scores would be equal and the first
  core would be kept.
\<close>

lemma find_least_loaded_core_rounding:
  "find_least_loaded_core rounding_snapshot = Returns 1 rounding_snapshot"
  by (simp add: find_least_loaded_core_def rounding_snapshot_def balancer_with_def
      load_of_rounding_core0 load_of_rounding_core1 DBL_MAX_def)

text \<open>
  C1 (as amended). With \<open>metrics_mutex_\<close> free, \<open>find_least_loaded_core\<close> returns and
  leaves the balancer unchanged. The score of a core is \<open>load_of\<close>, computed in double
  arithmetic; unhealthy cores are skipped. Either it returns \<open>size_t(-1)\<close> and no healthy
  core has a score below \<open>DBL_MAX\<close>; or it returns the id of a healthy core such that no
  healthy core has a smaller score, and a tie is won by the core that comes first in the
  map's iteration order: every healthy core before it has a strictly greater score (or
  a score that is not a number).
\<close>

theorem find_least_loaded_core_first_minimum:
  assumes "\<not> metrics_mutex s"
  shows "\<exists>r. find_least_loaded_core s = Returns r s \<and>
           ((r = SIZE_MAX \<and>
             (\<forall>x\<in>set (core_metrics s). is_healthy (snd x) \<longrightarrow> \<not> dless (load_of (snd x)) (Finite DBL_MAX))) \<or>
            (\<exists>pre x post. core_metrics s = pre @ (r, x) # post \<and> is_healthy x \<and>
                dless (load_of x) (Finite DBL_MAX) \<and>
                (\<forall>y\<in>set pre. is_healthy (snd y) \<longrightarrow>
                    load_of (snd y) = NaN \<or> dless (load_of x) (load_of (snd y))) \<and>
                (\<forall>y\<in>set post. is_healthy (snd y) \<longrightarrow> \<not> dless (load_of (snd y)) (load_of x))))"
  using assms least_loaded_loop_cases [of "core_metrics s" SIZE_MAX "Finite DBL_MAX"]
  by (simp add: find_least_loaded_core_def)

theorem find_least_loaded_core_first_minimum_witness:
  "\<not> metrics_mutex tie_snapshot \<and>
   (\<exists>r. find_least_loaded_core tie_snapshot = Returns r tie_snapshot \<and>
      ((r = SIZE_MAX \<and>
        (\<forall>x\<in>set (core_metrics tie_snapshot). is_healthy (snd x) \<longrightarrow>
            \<not> dless (load_of (snd x)) (Finite DBL_MAX))) \<or>
       (\<exists>pre x post. core_metrics tie_snapshot = pre @ (r, x) # post \<and> is_healthy x \<and>
           dless (load_of x) (Finite DBL_MAX) \<and>
           (\<forall>y\<in>set pre. is_healthy (snd y) \<longrightarrow>
               load_of (snd y) = NaN \<or> dless (load_of x) (load_of (snd y))) \<and>
           (\<forall>y\<in>set post. is_healthy (snd y) \<longrightarrow> \<not> dless (load_of (snd y)) (load_of x)))))"
proof -
  have h: "\<not> metrics_mutex tie_snapshot"
    by (simp add: tie_snapshot_def balancer_with_def)
  from h find_least_loaded_core_first_minimum [OF h] show ?thesis by blast
qed

text \<open>
  C1 (as stated) fails: on two healthy idle cores iterated in the order 1, 0 the code
  returns core 1, while the lowest id among the cores of minimal score is 0.
\<close>

theorem find_least_loaded_core_tie_counterexample:
  "find_least_loaded_core tie_snapshot = Returns 1 tie_snapshot \<and>
   spec_least_loaded_core (core_metrics tie_snapshot) = Some 0"
  by (simp add: find_least_loaded_core_def tie_snapshot_def balancer_with_def
      load_of_idle DBL_MAX_def spec_least_loaded_core_def spec_better_def)

section \<open>Task submission and status\<close>

text \<open>
  C10. For a task id without an entry in the status table, \<open>get_task_status\<close> called by
  a thread that does not own \<open>task_mutex_\<close> returns \<open>UNKNOWN\<close> and leaves every table of
  the balancer as it was.
\<close>

theorem get_task_status_unknown:
  assumes "\<not> task_mutex s" and "map_of (task_status s) task_id = None"
  shows "get_task_status s task_id = Returns UNKNOWN s"
  using assms by (simp add: get_task_status_def)

theorem get_task_status_unknown_witness:
  "\<not> task_mutex scenario_A \<and> map_of (task_status scenario_A) 7 = None \<and>
   get_task_status scenario_A 7 = Returns UNKNOWN scenario_A"
proof -
  have h: "\<not> task_mutex scenario_A" "map_of (task_status scenario_A) 7 = None"
    by (simp_all add: scenario_A_def balancer_with_def)
  from h get_task_status_unknown [OF h] show ?thesis by simp
qed







section \<open>Failure handling and rebalancing\<close>

text \<open>
  For a core that has an entry in the metrics table \<open>handle_core_failure\<close> does not
  return: it enters \<open>mark_core_unhealthy\<close>, which takes \<open>metrics_mutex_\<close>, finds the entry
  and calls \<open>handle_core_failure\<close> again, whose first statement is
  \<open>mark_core_unhealthy\<close> on the mutex now owned.
\<close>

lemma handle_core_failure_known_core:
  assumes "map_of (core_metrics s) core_id = Some m"
  shows "handle_core_failure s core_id = Deadlock"
  using assms
  apply (subst handle_core_failure.simps)
  apply (subst mark_core_unhealthy.simps)
  apply (subst handle_core_failure.simps)
  apply (subst mark_core_unhealthy.simps)
  apply simp
  done

lemma mark_core_unhealthy_known_core:
  assumes "map_of (core_metrics s) core_id = Some m"
  shows "mark_core_unhealthy s core_id = Deadlock"
  using assms
  apply (subst mark_core_unhealthy.simps)
  apply (subst handle_core_failure.simps)
  apply (subst mark_core_unhealthy.simps)
  apply simp
  done

text \<open>
  \<open>handle_core_failure\<close> is private. Its two callers, \<open>mark_core_unhealthy\<close> (line 175)
  and \<open>monitor_cores\<close> (line 285), both hold \<open>metrics_mutex_\<close> when they call it; from
  such a state the call does not return, whatever the core id.
\<close>

lemma handle_core_failure_metrics_owned:
  assumes "metrics_mutex s"
  shows "handle_core_failure s core_id = Deadlock"
  using assms
  apply (subst handle_core_failure.simps)
  apply (subst mark_core_unhealthy.simps)
  apply simp
  done

text \<open>The only call of \<open>mark_core_unhealthy\<close> that returns is the one for a core without
  an entry in the metrics table, and it changes nothing.\<close>

lemma mark_core_unhealthy_returns:
  assumes "mark_core_unhealthy s core_id = Returns u s'"
  shows "s' = s \<and> \<not> metrics_mutex s \<and> map_of (core_metrics s) core_id = None"
proof (cases "metrics_mutex s")
  case True
  then have "mark_core_unhealthy s core_id = Deadlock"
    by (subst mark_core_unhealthy.simps) simp
  with assms show ?thesis by simp
next
  case False
  show ?thesis
  proof (cases "map_of (core_metrics s) core_id")
    case None
    with False have "mark_core_unhealthy s core_id = Returns () s"
      by (subst mark_core_unhealthy.simps) simp
    with assms None False show ?thesis by simp
  next
    case (Some m)
    from mark_core_unhealthy_known_core [OF this] assms show ?thesis by simp
  qed
qed

text \<open>
  C4 (the code at the failing input). In Scenario B, core 3 with five tasks and three
  healthy cores beside it, neither \<open>mark_core_unhealthy(3)\<close> nor
  \<open>handle_core_failure(3)\<close> returns: no task is reassigned.
\<close>

theorem handle_core_failure_scenario_B:
  "mark_core_unhealthy scenario_B 3 = Deadlock \<and> handle_core_failure scenario_B 3 = Deadlock"
proof -
  have "map_of (core_metrics scenario_B) 3 = Some (core_sample (5 / 10) 0 0 False)"
    by (simp add: scenario_B_def balancer_with_def)
  then show ?thesis
    by (simp add: handle_core_failure_known_core mark_core_unhealthy_known_core)
qed

text \<open>
  C3 (the code at the failing input). In Scenario B, two calls in a row for core 3 migrate
  no task, neither once nor twice, because the first call does not return: through the
  public \<open>mark_core_unhealthy(3)\<close> from a state where no mutex is owned, and as
  \<open>monitor_cores\<close> calls \<open>handle_core_failure(3)\<close>, with \<open>metrics_mutex_\<close> owned.
\<close>

theorem handle_core_failure_twice_scenario_B:
  "twice (\<lambda>s. mark_core_unhealthy s 3) scenario_B = Deadlock \<and>
   twice (\<lambda>s. handle_core_failure s 3) (scenario_B\<lparr>metrics_mutex := True\<rparr>) = Deadlock"
proof -
  have "map_of (core_metrics scenario_B) 3 = Some (core_sample (5 / 10) 0 0 False)"
    by (simp add: scenario_B_def balancer_with_def)
  then have "mark_core_unhealthy scenario_B 3 = Deadlock"
    by (rule mark_core_unhealthy_known_core)
  moreover have "handle_core_failure (scenario_B\<lparr>metrics_mutex := True\<rparr>) 3 = Deadlock"
    by (rule handle_core_failure_metrics_owned) simp
  ultimately show ?thesis by (simp add: twice_def)
qed

text \<open>
  \<open>rebalance_load\<close> holds \<open>metrics_mutex_\<close> while it calls \<open>redistribute_tasks\<close>, and
  \<open>redistribute_tasks\<close> calls \<open>find_least_loaded_core\<close>, which takes the same mutex, once
  for every task it found. So a call of \<open>rebalance_load\<close> either finds no task on any
  overloaded core and changes nothing, or does not return.
\<close>

lemma redistribute_tasks_metrics_owned:
  assumes "metrics_mutex s" and "\<not> task_mutex s"
  shows "redistribute_tasks s c =
           (if \<exists>x\<in>set (tasks s). assigned_core (snd x) = c then Deadlock else Returns () s)"
proof (cases "filter (\<lambda>(task_id, task). assigned_core task = c) (tasks s)")
  case Nil
  then have "\<not> (\<exists>x\<in>set (tasks s). assigned_core (snd x) = c)"
    by (auto simp: filter_empty_conv)
  moreover have "s\<lparr>task_mutex := False\<rparr> = s" using assms(2) by simp
  ultimately show ?thesis using assms Nil by (simp add: redistribute_tasks_def)
next
  case (Cons a as)
  have "\<forall>x\<in>set (filter (\<lambda>(task_id, task). assigned_core task = c) (tasks s)).
          x \<in> set (tasks s) \<and> assigned_core (snd x) = c"
    by auto
  then have "a \<in> set (tasks s) \<and> assigned_core (snd a) = c"
    unfolding Cons by simp
  then have "\<exists>x\<in>set (tasks s). assigned_core (snd x) = c" by blast
  then show ?thesis using assms Cons
    by (simp add: redistribute_tasks_def find_least_loaded_core_def)
qed

lemma rebalance_loop_metrics_owned:
  assumes "metrics_mutex s" and "\<not> task_mutex s"
  shows "rebalance_loop s cs =
           (if \<exists>c\<in>set cs. \<exists>x\<in>set (tasks s). assigned_core (snd x) = c then Deadlock
            else Returns () s)"
  using assms by (induction cs) (auto simp: redistribute_tasks_metrics_owned)

lemma rebalance_load_deadlock_or_nothing:
  assumes "\<not> metrics_mutex s" and "\<not> task_mutex s"
  shows "rebalance_load s =
           (if \<exists>m\<in>set (core_metrics s). is_overloaded (snd m) \<and>
                  (\<exists>x\<in>set (tasks s). assigned_core (snd x) = fst m)
            then Deadlock else Returns () s)"
proof -
  let ?cs = "map fst (filter (\<lambda>(core_id, m). is_overloaded m) (core_metrics s))"
  have "rebalance_loop (s\<lparr>metrics_mutex := True\<rparr>) ?cs =
          (if \<exists>c\<in>set ?cs. \<exists>x\<in>set (tasks s). assigned_core (snd x) = c then Deadlock
           else Returns () (s\<lparr>metrics_mutex := True\<rparr>))"
    using assms(2) by (simp add: rebalance_loop_metrics_owned)
  moreover have "(\<exists>c\<in>set ?cs. \<exists>x\<in>set (tasks s). assigned_core (snd x) = c) \<longleftrightarrow>
        (\<exists>m\<in>set (core_metrics s). is_overloaded (snd m) \<and>
              (\<exists>x\<in>set (tasks s). assigned_core (snd x) = fst m))"
    by force
  moreover have "s\<lparr>metrics_mutex := False\<rparr> = s" using assms(1) by simp
  ultimately show ?thesis using assms(1) by (simp add: rebalance_load_def)
qed

text \<open>A call of \<open>rebalance_load\<close> that returns has changed nothing.\<close>

lemma redistribute_loop_metrics_owned:
  assumes "metrics_mutex s"
  shows "redistribute_loop s ts = (if ts = [] then Returns () s else Deadlock)"
  using assms by (cases ts) (simp_all add: find_least_loaded_core_def)

lemma redistribute_tasks_owned_returns:
  assumes "metrics_mutex s" and "redistribute_tasks s c = Returns u s'"
  shows "s' = s"
proof -
  from assms have nt: "\<not> task_mutex s"
    by (auto simp: redistribute_tasks_def)
  with redistribute_tasks_metrics_owned [OF assms(1), of c] assms(2) show ?thesis
    by (simp split: if_splits)
qed

lemma rebalance_loop_owned_returns:
  assumes "metrics_mutex s" and "rebalance_loop s cs = Returns u s'"
  shows "s' = s"
  using assms
proof (induction cs arbitrary: s)
  case Nil
  then show ?case by simp
next
  case (Cons c cs)
  from Cons.prems(2) obtain u1 s1 where s1: "redistribute_tasks s c = Returns u1 s1"
    by (cases "redistribute_tasks s c") simp_all
  from redistribute_tasks_owned_returns [OF Cons.prems(1) s1] have e: "s1 = s" .
  from Cons.prems(2) s1 e have "rebalance_loop s cs = Returns u s'" by simp
  from Cons.IH [OF Cons.prems(1) this] show ?case .
qed

lemma rebalance_load_returns:
  assumes "rebalance_load s = Returns u s'"
  shows "s' = s"
proof -
  let ?cs = "map fst (filter (\<lambda>(core_id, m). is_overloaded m) (core_metrics s))"
  from assms have nm: "\<not> metrics_mutex s"
    by (auto simp: rebalance_load_def)
  from assms nm obtain u1 s1 where
    s1: "rebalance_loop (s\<lparr>metrics_mutex := True\<rparr>) ?cs = Returns u1 s1"
    by (cases "rebalance_loop (s\<lparr>metrics_mutex := True\<rparr>) ?cs")
       (simp_all add: rebalance_load_def)
  have r: "rebalance_load s = Returns () (s1\<lparr>metrics_mutex := False\<rparr>)"
    using nm s1 by (simp add: rebalance_load_def)
  have "s1 = s\<lparr>metrics_mutex := True\<rparr>"
    by (rule rebalance_loop_owned_returns [OF _ s1]) simp
  then have "s1\<lparr>metrics_mutex := False\<rparr> = s\<lparr>metrics_mutex := False\<rparr>" by simp
  also have "\<dots> = s" using nm by simp
  finally show ?thesis using assms r by simp
qed

text \<open>
  C5 (the code at the failing input). In Scenario A, where core 0 is the one overloaded
  core and holds a task, \<open>rebalance_load\<close> does not return; the task is not moved.
\<close>

theorem rebalance_load_scenario_A:
  "rebalance_load scenario_A = Deadlock"
  by (simp add: rebalance_load_def scenario_A_def balancer_with_def task_on_def
      is_overloaded_scenario_A redistribute_tasks_def find_least_loaded_core_def)

section \<open>HierarchicalLock\<close>

text \<open>
  C7. \<open>lock(v)\<close> throws "Invalid lock hierarchy" exactly when \<open>v\<close> is not above the
  calling thread's current level, and then neither the lock word nor the thread's level
  has changed. (On a free lock a request above the current level is granted.)
\<close>

theorem lock_invalid_hierarchy:
  "((\<exists>s'. lock s v = Some (Throws InvalidHierarchy s')) \<longleftrightarrow> v \<le> current_hierarchy s) \<and>
   (v \<le> current_hierarchy s \<longrightarrow> lock s v = Some (Throws InvalidHierarchy s)) \<and>
   (current_hierarchy s < v \<and> lock_word s = 0 \<longrightarrow>
      lock s v = Some (Returns () (s\<lparr>lock_word := v, current_hierarchy := v\<rparr>)))"
proof -
  have free: "lock_word s = 0 \<Longrightarrow> spin_acquire s v = Some (s\<lparr>lock_word := v\<rparr>)"
    by (subst spin_acquire.simps) simp
  show ?thesis
  proof (cases "lock_word s = 0")
    case True
    then show ?thesis by (auto simp: lock_def free)
  next
    case False
    then show ?thesis by (cases "spin_acquire s v") (auto simp: lock_def)
  qed
qed

theorem lock_invalid_hierarchy_witness:
  "(3::nat) \<le> current_hierarchy \<lparr>lock_word = 5, current_hierarchy = 5\<rparr> \<and>
   lock \<lparr>lock_word = 5, current_hierarchy = 5\<rparr> 3 =
     Some (Throws InvalidHierarchy \<lparr>lock_word = 5, current_hierarchy = 5\<rparr>) \<and>
   current_hierarchy \<lparr>lock_word = 0, current_hierarchy = 0\<rparr> < (3::nat) \<and>
   lock_word \<lparr>lock_word = 0, current_hierarchy = 0\<rparr> = 0 \<and>
   lock \<lparr>lock_word = 0, current_hierarchy = 0\<rparr> 3 =
     Some (Returns () \<lparr>lock_word = 3, current_hierarchy = 3\<rparr>)"
  using lock_invalid_hierarchy [of "\<lparr>lock_word = 5, current_hierarchy = 5\<rparr>" 3]
        lock_invalid_hierarchy [of "\<lparr>lock_word = 0, current_hierarchy = 0\<rparr>" 3]
  by simp

section \<open>The lock-free queues\<close>

lemma queue_chain_update_outside:
  "a' \<notin> set (a # ns) \<Longrightarrow> queue_chain (h(a' := v)) a ns = queue_chain h a ns"
  by (induction ns arbitrary: a) (auto split: option.splits)

lemma queue_chain_head_allocated:
  "queue_chain h a ns \<Longrightarrow> h a \<noteq> None"
  by (cases ns) (auto split: option.splits)

lemma dequeue_empty:
  assumes "well_formed q []"
  shows "dequeue q = Some (Returns None q)"
  using assms
  by (subst dequeue.simps) (auto simp: well_formed_def split: option.splits)

lemma lockfree_dequeue_empty:
  assumes "well_formed q []"
  shows "lockfree_dequeue q = Some (Throws QueueIsEmpty q)"
  using assms
  by (subst lockfree_dequeue.simps) (auto simp: well_formed_def split: option.splits)

lemma well_formed_after_dequeue:
  assumes "well_formed q (n # rest)"
  shows "well_formed (after_dequeue q n) rest"
proof -
  from assms obtain hn where hn: "nodes q (head q) = Some hn" "next hn = Some n"
    and ch: "queue_chain (nodes q) n rest"
    and d: "distinct (head q # n # rest)" and t: "tail q \<in> set (head q # n # rest)"
    by (auto simp: well_formed_def split: option.splits)
  from d have "head q \<notin> set (n # rest)" by simp
  from queue_chain_update_outside [OF this, of "nodes q" None] ch
  have "queue_chain ((nodes q)(head q := None)) n rest" by blast
  moreover from d have "distinct (n # rest)" by simp
  moreover from t have "(if head q = tail q then n else tail q) \<in> set (n # rest)" by auto
  ultimately show ?thesis by (simp add: well_formed_def after_dequeue_def)
qed

lemma dequeue_first:
  assumes "well_formed q (n # rest)"
  shows "dequeue q = Some (Returns (item_at q n) (after_dequeue q n))"
proof -
  from assms obtain hn where hn: "nodes q (head q) = Some hn" "next hn = Some n"
    and ch: "queue_chain (nodes q) n rest"
    and d: "distinct (head q # n # rest)"
    by (auto simp: well_formed_def split: option.splits)
  from queue_chain_head_allocated [OF ch] obtain nn where nn: "nodes q n = Some nn" by blast
  from d have ne: "head q \<noteq> n" by auto
  show ?thesis
  proof (cases "head q = tail q")
    case True
    have "dequeue q = dequeue (q\<lparr>tail := n\<rparr>)"
      using hn True by (subst dequeue.simps) simp
    also have "\<dots> = Some (Returns (Some (data nn))
                  (q\<lparr>tail := n, head := n, nodes := (nodes q)(head q := None)\<rparr>))"
      using hn nn ne by (subst dequeue.simps) simp
    finally show ?thesis using True nn by (simp add: after_dequeue_def item_at_def)
  next
    case False
    have "dequeue q = Some (Returns (Some (data nn))
                  (q\<lparr>head := n, nodes := (nodes q)(head q := None)\<rparr>))"
      using hn nn False by (subst dequeue.simps) simp
    then show ?thesis using False nn by (simp add: after_dequeue_def item_at_def)
  qed
qed

lemma lockfree_dequeue_first:
  assumes "well_formed q (n # rest)"
  shows "\<exists>v. item_at q n = Some v \<and> lockfree_dequeue q = Some (Returns v (after_dequeue q n))"
proof -
  from assms obtain hn where hn: "nodes q (head q) = Some hn" "next hn = Some n"
    and ch: "queue_chain (nodes q) n rest"
    and d: "distinct (head q # n # rest)"
    by (auto simp: well_formed_def split: option.splits)
  from queue_chain_head_allocated [OF ch] obtain nn where nn: "nodes q n = Some nn" by blast
  from d have ne: "head q \<noteq> n" by auto
  have "lockfree_dequeue q = Some (Returns (data nn) (after_dequeue q n))"
  proof (cases "head q = tail q")
    case True
    have "lockfree_dequeue q = lockfree_dequeue (q\<lparr>tail := n\<rparr>)"
      using hn True by (subst lockfree_dequeue.simps) simp
    also have "\<dots> = Some (Returns (data nn)
                  (q\<lparr>tail := n, head := n, nodes := (nodes q)(head q := None)\<rparr>))"
      using hn nn ne by (subst lockfree_dequeue.simps) simp
    finally show ?thesis using True by (simp add: after_dequeue_def)
  next
    case False
    have "lockfree_dequeue q = Some (Returns (data nn)
                  (q\<lparr>head := n, nodes := (nodes q)(head q := None)\<rparr>))"
      using hn nn False by (subst lockfree_dequeue.simps) simp
    then show ?thesis using False by (simp add: after_dequeue_def)
  qed
  then show ?thesis using nn by (simp add: item_at_def)
qed

text \<open>
  C8 (as amended). On a well-formed queue with real nodes \<open>ns\<close>, both \<open>dequeue\<close>
  functions return. The queue is empty exactly when the dummy head's \<open>next\<close> is null.
  \<open>concurrency::LockFreeQueue::dequeue\<close> returns \<open>false\<close> on the empty queue, which
  it leaves unchanged, and otherwise hands out the first real node's item.
  \<open>lockfree::LockFreeQueue::dequeue\<close> returns the first real node's item of a non-empty
  queue and throws "Queue is empty" on the empty one. After a successful dequeue the
  queue is well formed with the remaining nodes.
\<close>

theorem dequeue_none_iff_empty:
  assumes "well_formed q ns"
  shows "dequeue q = Some (case ns of [] \<Rightarrow> Returns None q
                           | n # rest \<Rightarrow> Returns (item_at q n) (after_dequeue q n)) \<and>
         (ns = [] \<longleftrightarrow> map_option next (nodes q (head q)) = Some None) \<and>
         (\<forall>n rest. ns = n # rest \<longrightarrow>
            (\<exists>v. item_at q n = Some v \<and>
                 lockfree_dequeue q = Some (Returns v (after_dequeue q n))) \<and>
            well_formed (after_dequeue q n) rest) \<and>
         (ns = [] \<longrightarrow> lockfree_dequeue q = Some (Throws QueueIsEmpty q))"
proof (cases ns)
  case Nil
  with assms show ?thesis
    by (auto simp: dequeue_empty lockfree_dequeue_empty well_formed_def split: option.splits)
next
  case (Cons n rest)
  with assms have wf: "well_formed q (n # rest)" by simp
  then have "map_option next (nodes q (head q)) \<noteq> Some None"
    by (auto simp: well_formed_def split: option.splits)
  with Cons wf show ?thesis
    by (simp add: dequeue_first lockfree_dequeue_first well_formed_after_dequeue)
qed

theorem dequeue_none_iff_empty_witness:
  "well_formed one_item_queue [1] \<and>
   dequeue one_item_queue = Some (Returns (Some 42) (after_dequeue one_item_queue 1)) \<and>
   lockfree_dequeue one_item_queue = Some (Returns 42 (after_dequeue one_item_queue 1)) \<and>
   well_formed (after_dequeue one_item_queue 1) [] \<and>
   dequeue (after_dequeue one_item_queue 1) = Some (Returns None (after_dequeue one_item_queue 1)) \<and>
   enqueue empty_queue 1 42 = Some (Returns () one_item_queue)"
proof -
  have w: "well_formed one_item_queue [1]"
    by (simp add: well_formed_def one_item_queue_def)
  have i: "item_at one_item_queue 1 = Some 42"
    by (simp add: item_at_def one_item_queue_def)
  have e: "enqueue empty_queue 1 42 = Some (Returns () one_item_queue)"
    by (subst enqueue.simps) (simp add: empty_queue_def one_item_queue_def)
  from dequeue_none_iff_empty [OF w] i
  have 1: "dequeue one_item_queue = Some (Returns (Some 42) (after_dequeue one_item_queue 1))"
    and 2: "lockfree_dequeue one_item_queue = Some (Returns 42 (after_dequeue one_item_queue 1))"
    and 3: "well_formed (after_dequeue one_item_queue 1) []"
    by simp_all
  from dequeue_none_iff_empty [OF 3]
  have "dequeue (after_dequeue one_item_queue 1) = Some (Returns None (after_dequeue one_item_queue 1))"
    by simp
  with w e 1 2 3 show ?thesis by simp
qed

text \<open>
  C8 (as stated) fails for \<open>lockfree::LockFreeQueue\<close>: on the empty queue its
  \<open>dequeue\<close> leaves by an exception instead of returning an empty result.
\<close>

theorem lockfree_dequeue_empty_counterexample:
  "well_formed empty_queue [] \<and>
   lockfree_dequeue empty_queue = Some (Throws QueueIsEmpty empty_queue)"
  by (subst lockfree_dequeue.simps) (simp add: empty_queue_def well_formed_def)

section \<open>The worker's task loop\<close>

declare process_tasks.simps [simp del]

lemma raised_calls_simps [simp]:
  "raised_calls execute core_id [] = []"
  "raised_calls execute core_id (ts @ us) =
     raised_calls execute core_id ts @ raised_calls execute core_id us"
  "execute t = None \<Longrightarrow> raised_calls execute core_id (t # ts) = raised_calls execute core_id ts"
  "execute t = Some (StdException what) \<Longrightarrow>
     raised_calls execute core_id (t # ts) = (core_id, what) # raised_calls execute core_id ts"
  by (simp_all add: raised_calls_def)

lemma queue_emptied_id:
  assumes "task_queue (cs ! core_id) = []"
  shows "cs[core_id := (cs ! core_id)\<lparr>task_queue := []\<rparr>] = cs"
proof -
  have "(cs ! core_id)\<lparr>task_queue := []\<rparr> = cs ! core_id" using assms by simp
  then show ?thesis by simp
qed

text \<open>As long as every task returns or throws a \<open>std::exception\<close>, the loop runs the
  whole queue.\<close>

lemma process_tasks_drains:
  assumes "core_id < length (cores e)" and "task_queue (cores e ! core_id) = ts"
    and "\<forall>t\<in>set ts. std_only execute t"
  shows "\<exists>e'. process_tasks execute e core_id = Returns () e' \<and>
           cores e' = (cores e)[core_id := (cores e ! core_id)\<lparr>task_queue := []\<rparr>] \<and>
           execute_trace e' = execute_trace e @ ts \<and>
           handler_calls e' = handler_calls e @ raised_calls execute core_id ts"
  using assms
proof (induction ts arbitrary: e)
  case Nil
  then show ?case
    by (subst process_tasks.simps) (simp add: queue_emptied_id)
next
  case (Cons t ts)
  let ?e1 = "e\<lparr>cores := (cores e)[core_id := (cores e ! core_id)\<lparr>task_queue := ts\<rparr>],
               execute_trace := execute_trace e @ [t]\<rparr>"
  from Cons.prems(3) have rest: "\<forall>t\<in>set ts. std_only execute t" by simp
  show ?case
  proof (cases "execute t")
    case None
    have step: "process_tasks execute e core_id = process_tasks execute ?e1 core_id"
      using Cons.prems None by (subst process_tasks.simps) simp
    have p: "core_id < length (cores ?e1)" "task_queue (cores ?e1 ! core_id) = ts"
      using Cons.prems by simp_all
    from Cons.IH [OF p rest] obtain e' where e':
      "process_tasks execute ?e1 core_id = Returns () e'"
      "cores e' = (cores ?e1)[core_id := (cores ?e1 ! core_id)\<lparr>task_queue := []\<rparr>]"
      "execute_trace e' = execute_trace ?e1 @ ts"
      "handler_calls e' = handler_calls ?e1 @ raised_calls execute core_id ts"
      by blast
    have "cores e' = (cores e)[core_id := (cores e ! core_id)\<lparr>task_queue := []\<rparr>]"
      using e'(2) Cons.prems by simp
    moreover have "execute_trace e' = execute_trace e @ t # ts" using e'(3) by simp
    moreover have "handler_calls e' = handler_calls e @ raised_calls execute core_id (t # ts)"
      using e'(4) None by simp
    ultimately show ?thesis using step e'(1) by simp
  next
    case (Some th)
    from Cons.prems(3) Some obtain what where w: "execute t = Some (StdException what)"
      by (cases th) (simp_all add: std_only_def)
    let ?e2 = "handle_core_exception ?e1 core_id what"
    have step: "process_tasks execute e core_id = process_tasks execute ?e2 core_id"
      using Cons.prems w by (subst process_tasks.simps) simp
    have p: "core_id < length (cores ?e2)" "task_queue (cores ?e2 ! core_id) = ts"
      using Cons.prems by (simp_all add: handle_core_exception_def)
    from Cons.IH [OF p rest] obtain e' where e':
      "process_tasks execute ?e2 core_id = Returns () e'"
      "cores e' = (cores ?e2)[core_id := (cores ?e2 ! core_id)\<lparr>task_queue := []\<rparr>]"
      "execute_trace e' = execute_trace ?e2 @ ts"
      "handler_calls e' = handler_calls ?e2 @ raised_calls execute core_id ts"
      by blast
    have "cores e' = (cores e)[core_id := (cores e ! core_id)\<lparr>task_queue := []\<rparr>]"
      using e'(2) Cons.prems by (simp add: handle_core_exception_def)
    moreover have "execute_trace e' = execute_trace e @ t # ts"
      using e'(3) by (simp add: handle_core_exception_def)
    moreover have "handler_calls e' = handler_calls e @ raised_calls execute core_id (t # ts)"
      using e'(4) w by (simp add: handle_core_exception_def)
    ultimately show ?thesis using step e'(1) by simp
  qed
qed

text \<open>The first task that throws something else ends the loop; the tasks behind it stay
  in the queue.\<close>

lemma process_tasks_escapes:
  assumes "core_id < length (cores e)" and "task_queue (cores e ! core_id) = pre @ bad # later"
    and "\<forall>t\<in>set pre. std_only execute t" and "execute bad = Some (OtherThrown d)"
  shows "\<exists>e'. process_tasks execute e core_id = Throws d e' \<and>
           cores e' = (cores e)[core_id := (cores e ! core_id)\<lparr>task_queue := later\<rparr>] \<and>
           execute_trace e' = execute_trace e @ pre @ [bad] \<and>
           handler_calls e' = handler_calls e @ raised_calls execute core_id pre"
  using assms(1,2,3)
proof (induction pre arbitrary: e)
  case Nil
  then show ?case using assms(4)
    by (subst process_tasks.simps) simp
next
  case (Cons t pre)
  let ?e1 = "e\<lparr>cores := (cores e)[core_id := (cores e ! core_id)\<lparr>task_queue := pre @ bad # later\<rparr>],
               execute_trace := execute_trace e @ [t]\<rparr>"
  from Cons.prems(3) have rest: "\<forall>t\<in>set pre. std_only execute t" by simp
  show ?case
  proof (cases "execute t")
    case None
    have step: "process_tasks execute e core_id = process_tasks execute ?e1 core_id"
      using Cons.prems None by (subst process_tasks.simps) simp
    have p: "core_id < length (cores ?e1)" "task_queue (cores ?e1 ! core_id) = pre @ bad # later"
      using Cons.prems by simp_all
    from Cons.IH [OF p rest] obtain e' where e':
      "process_tasks execute ?e1 core_id = Throws d e'"
      "cores e' = (cores ?e1)[core_id := (cores ?e1 ! core_id)\<lparr>task_queue := later\<rparr>]"
      "execute_trace e' = execute_trace ?e1 @ pre @ [bad]"
      "handler_calls e' = handler_calls ?e1 @ raised_calls execute core_id pre"
      by blast
    have "cores e' = (cores e)[core_id := (cores e ! core_id)\<lparr>task_queue := later\<rparr>]"
      using e'(2) Cons.prems by simp
    moreover have "execute_trace e' = execute_trace e @ (t # pre) @ [bad]" using e'(3) by simp
    moreover have "handler_calls e' = handler_calls e @ raised_calls execute core_id (t # pre)"
      using e'(4) None by simp
    ultimately show ?thesis using step e'(1) by simp
  next
    case (Some th)
    from Cons.prems(3) Some obtain what where w: "execute t = Some (StdException what)"
      by (cases th) (simp_all add: std_only_def)
    let ?e2 = "handle_core_exception ?e1 core_id what"
    have step: "process_tasks execute e core_id = process_tasks execute ?e2 core_id"
      using Cons.prems w by (subst process_tasks.simps) simp
    have p: "core_id < length (cores ?e2)" "task_queue (cores ?e2 ! core_id) = pre @ bad # later"
      using Cons.prems by (simp_all add: handle_core_exception_def)
    from Cons.IH [OF p rest] obtain e' where e':
      "process_tasks execute ?e2 core_id = Throws d e'"
      "cores e' = (cores ?e2)[core_id := (cores ?e2 ! core_id)\<lparr>task_queue := later\<rparr>]"
      "execute_trace e' = execute_trace ?e2 @ pre @ [bad]"
      "handler_calls e' = handler_calls ?e2 @ raised_calls execute core_id pre"
      by blast
    have "cores e' = (cores e)[core_id := (cores e ! core_id)\<lparr>task_queue := later\<rparr>]"
      using e'(2) Cons.prems by (simp add: handle_core_exception_def)
    moreover have "execute_trace e' = execute_trace e @ (t # pre) @ [bad]"
      using e'(3) by (simp add: handle_core_exception_def)
    moreover have "handler_calls e' = handler_calls e @ raised_calls execute core_id (t # pre)"
      using e'(4) w by (simp add: handle_core_exception_def)
    ultimately show ?thesis using step e'(1) by simp
  qed
qed

text \<open>
  C9 (as amended). On an existing core: if every task of the queue either returns or
  throws a \<open>std::exception\<close>, the task loop returns normally; every queued task has been
  popped and executed, in queue order, the failing ones included and the ones after them
  too; the queue is empty and the core's \<open>running\<close> flag is as before;
  \<open>handle_core_exception\<close> was called once for every failing task, with the core id and
  the exception. If a task throws anything else, the exception leaves the loop at that
  task: the tasks before it have been executed and the tasks after it are still queued.
\<close>

theorem worker_continues_after_failure:
  assumes "core_id < length (cores e)"
  shows "((\<forall>t\<in>set (task_queue (cores e ! core_id)). std_only execute t) \<longrightarrow>
            (\<exists>e'. process_tasks execute e core_id = Returns () e' \<and>
               execute_trace e' = execute_trace e @ task_queue (cores e ! core_id) \<and>
               task_queue (cores e' ! core_id) = [] \<and>
               running (cores e' ! core_id) = running (cores e ! core_id) \<and>
               handler_calls e' =
                 handler_calls e @ raised_calls execute core_id (task_queue (cores e ! core_id)))) \<and>
         (\<forall>pre bad later d.
            task_queue (cores e ! core_id) = pre @ bad # later \<and>
            (\<forall>t\<in>set pre. std_only execute t) \<and> execute bad = Some (OtherThrown d) \<longrightarrow>
            (\<exists>e'. process_tasks execute e core_id = Throws d e' \<and>
               execute_trace e' = execute_trace e @ pre @ [bad] \<and>
               task_queue (cores e' ! core_id) = later \<and>
               handler_calls e' = handler_calls e @ raised_calls execute core_id pre))"
proof (intro conjI impI allI)
  assume a: "\<forall>t\<in>set (task_queue (cores e ! core_id)). std_only execute t"
  from process_tasks_drains [OF assms refl a] obtain e' where e':
    "process_tasks execute e core_id = Returns () e'"
    "cores e' = (cores e)[core_id := (cores e ! core_id)\<lparr>task_queue := []\<rparr>]"
    "execute_trace e' = execute_trace e @ task_queue (cores e ! core_id)"
    "handler_calls e' =
       handler_calls e @ raised_calls execute core_id (task_queue (cores e ! core_id))"
    by blast
  from e'(2) assms have "task_queue (cores e' ! core_id) = []"
    "running (cores e' ! core_id) = running (cores e ! core_id)"
    by simp_all
  then show "\<exists>e'. process_tasks execute e core_id = Returns () e' \<and>
               execute_trace e' = execute_trace e @ task_queue (cores e ! core_id) \<and>
               task_queue (cores e' ! core_id) = [] \<and>
               running (cores e' ! core_id) = running (cores e ! core_id) \<and>
               handler_calls e' =
                 handler_calls e @ raised_calls execute core_id (task_queue (cores e ! core_id))"
    using e'(1,3,4) by blast
next
  fix pre bad later d
  assume a: "task_queue (cores e ! core_id) = pre @ bad # later \<and>
            (\<forall>t\<in>set pre. std_only execute t) \<and> execute bad = Some (OtherThrown d)"
  then have a1: "task_queue (cores e ! core_id) = pre @ bad # later"
    and a2: "\<forall>t\<in>set pre. std_only execute t" and a3: "execute bad = Some (OtherThrown d)"
    by simp_all
  from process_tasks_escapes [OF assms a1 a2 a3] obtain e' where e':
    "process_tasks execute e core_id = Throws d e'"
    "cores e' = (cores e)[core_id := (cores e ! core_id)\<lparr>task_queue := later\<rparr>]"
    "execute_trace e' = execute_trace e @ pre @ [bad]"
    "handler_calls e' = handler_calls e @ raised_calls execute core_id pre"
    by blast
  from e'(2) assms have "task_queue (cores e' ! core_id) = later" by simp
  then show "\<exists>e'. process_tasks execute e core_id = Throws d e' \<and>
               execute_trace e' = execute_trace e @ pre @ [bad] \<and>
               task_queue (cores e' ! core_id) = later \<and>
               handler_calls e' = handler_calls e @ raised_calls execute core_id pre"
    using e'(1,3,4) by blast
qed

theorem worker_continues_after_failure_witness:
  "0 < length (cores worker_example) \<and>
   list_all (std_only fails_on_2) (task_queue (cores worker_example ! 0)) \<and>
   (\<exists>e'. process_tasks fails_on_2 worker_example 0 = Returns () e' \<and>
      execute_trace e' = [sample_task 1, sample_task 2, sample_task 3] \<and>
      task_queue (cores e' ! 0) = [] \<and>
      running (cores e' ! 0) \<and>
      handler_calls e' = [(0, ''boom'')]) \<and>
   task_queue (cores worker_example ! 0) = [sample_task 1] @ sample_task 2 # [sample_task 3] \<and>
   list_all (std_only escapes_on_2) [sample_task 1] \<and>
   escapes_on_2 (sample_task 2) = Some (OtherThrown ''int'') \<and>
   (\<exists>e'. process_tasks escapes_on_2 worker_example 0 = Throws ''int'' e' \<and>
      execute_trace e' = [sample_task 1, sample_task 2] \<and>
      task_queue (cores e' ! 0) = [sample_task 3] \<and>
      handler_calls e' = [])"
proof -
  have h: "0 < length (cores worker_example)"
    by (simp add: worker_example_def engine_with_def)
  have q: "task_queue (cores worker_example ! 0) = [sample_task 1, sample_task 2, sample_task 3]"
    "execute_trace worker_example = []" "handler_calls worker_example = []"
    "running (cores worker_example ! 0)"
    by (simp_all add: worker_example_def engine_with_def)
  have f: "list_all (std_only fails_on_2) (task_queue (cores worker_example ! 0))"
    unfolding q by (simp add: std_only_def fails_on_2_def sample_task_def)
  have r: "raised_calls fails_on_2 0 [sample_task 1, sample_task 2, sample_task 3] = [(0, ''boom'')]"
    by (simp add: raised_calls_def fails_on_2_def sample_task_def)
  have g: "list_all (std_only escapes_on_2) [sample_task 1]"
    "escapes_on_2 (sample_task 2) = Some (OtherThrown ''int'')"
    "raised_calls escapes_on_2 0 [sample_task 1] = []"
    by (simp_all add: std_only_def escapes_on_2_def sample_task_def raised_calls_def)
  note main = worker_continues_after_failure [OF h]
  from main [of fails_on_2] f
  have 1: "\<exists>e'. process_tasks fails_on_2 worker_example 0 = Returns () e' \<and>
      execute_trace e' = [sample_task 1, sample_task 2, sample_task 3] \<and>
      task_queue (cores e' ! 0) = [] \<and>
      running (cores e' ! 0) \<and>
      handler_calls e' = [(0, ''boom'')]"
    unfolding q r by (simp add: list_all_iff q r)
  from main [of escapes_on_2] g
  have "task_queue (cores worker_example ! 0) = [sample_task 1] @ sample_task 2 # [sample_task 3] \<and>
      (\<forall>t\<in>set [sample_task 1]. std_only escapes_on_2 t) \<and>
      escapes_on_2 (sample_task 2) = Some (OtherThrown ''int'') \<longrightarrow>
      (\<exists>e'. process_tasks escapes_on_2 worker_example 0 = Throws ''int'' e' \<and>
         execute_trace e' = execute_trace worker_example @ [sample_task 1] @ [sample_task 2] \<and>
         task_queue (cores e' ! 0) = [sample_task 3] \<and>
         handler_calls e' = handler_calls worker_example @ raised_calls escapes_on_2 0 [sample_task 1])"
    by blast
  with g q have 2: "\<exists>e'. process_tasks escapes_on_2 worker_example 0 = Throws ''int'' e' \<and>
      execute_trace e' = [sample_task 1, sample_task 2] \<and>
      task_queue (cores e' ! 0) = [sample_task 3] \<and>
      handler_calls e' = []"
    by (simp add: list_all_iff)
  from h f 1 q(1) g(1,2) 2 show ?thesis by simp
qed

text \<open>
  C9 (as stated) fails: when the second of three tasks throws an \<open>int\<close>, no handler of
  the loop matches, the exception leaves \<open>worker_thread\<close>, and the third task is still
  queued, never executed.
\<close>

theorem worker_stops_on_other_exception_counterexample:
  "escapes_on_2 (sample_task 2) = Some (OtherThrown ''int'') \<and>
   process_tasks escapes_on_2 worker_example 0 =
     Throws ''int''
       \<lparr>cores = [\<lparr>running = True, paused = False, task_queue = [sample_task 3]\<rparr>],
        execute_trace = [sample_task 1, sample_task 2], handler_calls = []\<rparr>"
  apply (subst process_tasks.simps)
  apply (simp add: worker_example_def engine_with_def escapes_on_2_def sample_task_def)
  apply (subst process_tasks.simps)
  apply (simp add: escapes_on_2_def)
  done

section \<open>Every task on exactly one queue\<close>

lemma queued_tasks_simps [simp]:
  "queued_tasks [] = {#}"
  "queued_tasks (c # cs) = mset (task_queue c) + queued_tasks cs"
  "queued_tasks (cs @ ds) = queued_tasks cs + queued_tasks ds"
  by (simp_all add: queued_tasks_def)

lemma collect_failed_props:
  assumes "collect_failed cs = (failed_tasks, cs')"
  shows "mset failed_tasks + queued_tasks cs' = queued_tasks cs"
    and "map running cs' = map running cs"
    and "\<forall>c\<in>set cs'. \<not> running c \<longrightarrow> task_queue c = []"
  using assms
  by (induction cs arbitrary: failed_tasks cs') (auto split: prod.splits if_splits)

lemma mce_least_loop_cases:
  "(\<exists>k<length cs. mce_least_loop cs i m t = i + k \<and> running (cs ! k)) \<or>
   (mce_least_loop cs i m t = t \<and> (\<forall>c\<in>set cs. running c \<longrightarrow> \<not> length (task_queue c) < m))"
proof (induction cs arbitrary: i m t)
  case Nil
  show ?case by simp
next
  case (Cons c cs)
  show ?case
  proof (cases "running c \<and> length (task_queue c) < m")
    case True
    then have r: "mce_least_loop (c # cs) i m t = mce_least_loop cs (i + 1) (length (task_queue c)) i"
      by simp
    from Cons.IH [of "i + 1" "length (task_queue c)" i] show ?thesis
    proof (elim disjE exE conjE)
      fix k assume "k < length cs"
        "mce_least_loop cs (i + 1) (length (task_queue c)) i = i + 1 + k" "running (cs ! k)"
      then have "Suc k < length (c # cs) \<and> mce_least_loop (c # cs) i m t = i + Suc k \<and>
                 running ((c # cs) ! Suc k)"
        using r by simp
      then show ?thesis by blast
    next
      assume "mce_least_loop cs (i + 1) (length (task_queue c)) i = i"
      then have "0 < length (c # cs) \<and> mce_least_loop (c # cs) i m t = i + 0 \<and>
                 running ((c # cs) ! 0)"
        using r True by simp
      then show ?thesis by blast
    qed
  next
    case False
    then have r: "mce_least_loop (c # cs) i m t = mce_least_loop cs (i + 1) m t"
      by auto
    from Cons.IH [of "i + 1" m t] show ?thesis
    proof (elim disjE exE conjE)
      fix k assume "k < length cs" "mce_least_loop cs (i + 1) m t = i + 1 + k" "running (cs ! k)"
      then have "Suc k < length (c # cs) \<and> mce_least_loop (c # cs) i m t = i + Suc k \<and>
                 running ((c # cs) ! Suc k)"
        using r by simp
      then show ?thesis by blast
    next
      assume "mce_least_loop cs (i + 1) m t = t"
        "\<forall>c\<in>set cs. running c \<longrightarrow> \<not> length (task_queue c) < m"
      then show ?thesis using r False by auto
    qed
  qed
qed

text \<open>Replacing the queue of one core: what the other queues hold does not change.\<close>

lemma queued_tasks_update:
  assumes "k < length cs"
  shows "queued_tasks (cs[k := (cs ! k)\<lparr>task_queue := q\<rparr>]) + mset (task_queue (cs ! k)) =
         queued_tasks cs + mset q"
proof -
  have "cs = take k cs @ cs ! k # drop (Suc k) cs"
    using assms by (rule id_take_nth_drop)
  then have "queued_tasks cs =
     queued_tasks (take k cs) + mset (task_queue (cs ! k)) + queued_tasks (drop (Suc k) cs)"
    by (metis queued_tasks_simps(2,3) add.assoc)
  moreover have "queued_tasks (cs[k := (cs ! k)\<lparr>task_queue := q\<rparr>]) =
     queued_tasks (take k cs) + mset q + queued_tasks (drop (Suc k) cs)"
    using assms by (simp add: upd_conv_take_nth_drop)
  ultimately show ?thesis by simp
qed

lemma queued_tasks_push:
  assumes "k < length cs"
  shows "queued_tasks (cs[k := (cs ! k)\<lparr>task_queue := task_queue (cs ! k) @ [task]\<rparr>]) =
         queued_tasks cs + {#task#}"
  using queued_tasks_update [OF assms, of "task_queue (cs ! k) @ [task]"] by simp

lemma queued_tasks_pop:
  assumes "k < length cs" and "task_queue (cs ! k) = t # rest"
  shows "queued_tasks (cs[k := (cs ! k)\<lparr>task_queue := rest\<rparr>]) + {#t#} = queued_tasks cs"
  using queued_tasks_update [OF assms(1), of rest] assms(2) by simp

lemma running_update:
  "map running (cs[k := (cs ! k)\<lparr>task_queue := q\<rparr>]) = map running cs"
proof (cases "k < length cs")
  case True
  then show ?thesis by (auto simp: list_eq_iff_nth_eq nth_list_update)
next
  case False
  then have "cs[k := (cs ! k)\<lparr>task_queue := q\<rparr>] = cs"
    by (intro list_update_beyond) simp
  then show ?thesis by simp
qed

lemma running_exists_map:
  "(\<exists>c\<in>set cs. running c) \<longleftrightarrow> True \<in> set (map running cs)"
  by force

lemma queue_length_le_total:
  "c \<in> set cs \<Longrightarrow> length (task_queue c) \<le> size (queued_tasks cs)"
  by (induction cs) auto

lemma mce_find_least_loaded_core_running:
  assumes "\<exists>c\<in>set (cores e). running c"
    and "length (cores e) \<le> SIZE_MAX" and "size (queued_tasks (cores e)) < SIZE_MAX"
  shows "mce_find_least_loaded_core e < length (cores e) \<and>
         running (cores e ! mce_find_least_loaded_core e) \<and>
         mce_find_least_loaded_core e \<noteq> SIZE_MAX"
proof -
  from assms(1) obtain c where c: "c \<in> set (cores e)" "running c" by blast
  with queue_length_le_total [of c "cores e"] assms(3)
  have "length (task_queue c) < SIZE_MAX" by simp
  with c have "\<not> (\<forall>c\<in>set (cores e). running c \<longrightarrow> \<not> length (task_queue c) < SIZE_MAX)"
    by blast
  with mce_least_loop_cases [of "cores e" 0 SIZE_MAX SIZE_MAX]
  obtain k where "k < length (cores e)" "mce_find_least_loaded_core e = k" "running (cores e ! k)"
    by (auto simp: mce_find_least_loaded_core_def)
  with assms(2) show ?thesis by simp
qed

lemma mce_redistribute_loop_keeps_tasks:
  assumes "\<exists>c\<in>set (cores e). running c"
    and "length (cores e) \<le> SIZE_MAX"
    and "size (queued_tasks (cores e)) + length ts < SIZE_MAX"
    and "\<forall>c\<in>set (cores e). \<not> running c \<longrightarrow> task_queue c = []"
  shows "\<exists>e'. mce_redistribute_loop e ts = Returns () e' \<and>
           queued_tasks (cores e') = queued_tasks (cores e) + mset ts \<and>
           map running (cores e') = map running (cores e) \<and>
           execute_trace e' = execute_trace e \<and>
           (\<forall>c\<in>set (cores e'). \<not> running c \<longrightarrow> task_queue c = [])"
  using assms
proof (induction ts arbitrary: e)
  case Nil
  then show ?case by simp
next
  case (Cons task ts)
  let ?k = "mce_find_least_loaded_core e"
  let ?e1 = "e\<lparr>cores := (cores e)[?k := (cores e ! ?k)\<lparr>task_queue := task_queue (cores e ! ?k) @ [task]\<rparr>]\<rparr>"
  from Cons.prems have sz: "size (queued_tasks (cores e)) < SIZE_MAX" by simp
  from mce_find_least_loaded_core_running [OF Cons.prems(1,2) sz]
  have k: "?k < length (cores e)" "running (cores e ! ?k)" "?k \<noteq> SIZE_MAX" by simp_all
  have step: "mce_redistribute_loop e (task # ts) = mce_redistribute_loop ?e1 ts"
    using k by (simp add: mce_submit_task_def)
  have q1: "queued_tasks (cores ?e1) = queued_tasks (cores e) + {#task#}"
    using k(1) by (simp add: queued_tasks_push)
  have r1: "map running (cores ?e1) = map running (cores e)"
    by (simp add: running_update)
  have p1: "\<exists>c\<in>set (cores ?e1). running c"
    using Cons.prems(1) r1 unfolding running_exists_map by simp
  have p2: "length (cores ?e1) \<le> SIZE_MAX" using Cons.prems(2) by simp
  have p3: "size (queued_tasks (cores ?e1)) + length ts < SIZE_MAX"
    using Cons.prems(3) q1 by simp
  have p4: "\<forall>c\<in>set (cores ?e1). \<not> running c \<longrightarrow> task_queue c = []"
  proof
    fix c assume "c \<in> set (cores ?e1)"
    then have "c \<in> set (cores e) \<or> c = (cores e ! ?k)\<lparr>task_queue := task_queue (cores e ! ?k) @ [task]\<rparr>"
      using set_update_subset_insert [of "cores e" ?k] by auto
    then show "\<not> running c \<longrightarrow> task_queue c = []"
      using Cons.prems(4) k(2) by auto
  qed
  from Cons.IH [OF p1 p2 p3 p4] obtain e' where
    "mce_redistribute_loop ?e1 ts = Returns () e'"
    "queued_tasks (cores e') = queued_tasks (cores ?e1) + mset ts"
    "map running (cores e') = map running (cores ?e1)"
    "execute_trace e' = execute_trace ?e1"
    "\<forall>c\<in>set (cores e'). \<not> running c \<longrightarrow> task_queue c = []"
    by blast
  then show ?case using step q1 r1 by simp
qed

text \<open>
  \<open>MultiCoreEngine::redistribute_tasks\<close> with at least one core running: the tasks held by
  the queues are, with multiplicity, the same as before, and the stopped cores hold none.
\<close>

lemma mce_redistribute_tasks_running:
  assumes "\<exists>c\<in>set (cores e). running c"
    and "length (cores e) \<le> SIZE_MAX" and "size (queued_tasks (cores e)) < SIZE_MAX"
  shows "\<exists>e'. mce_redistribute_tasks e = Returns () e' \<and>
           queued_tasks (cores e') = queued_tasks (cores e) \<and>
           map running (cores e') = map running (cores e) \<and>
           execute_trace e' = execute_trace e \<and>
           (\<forall>c\<in>set (cores e'). \<not> running c \<longrightarrow> task_queue c = [])"
proof -
  obtain failed_tasks cs where cf: "collect_failed (cores e) = (failed_tasks, cs)"
    by (cases "collect_failed (cores e)")
  note props = collect_failed_props [OF cf]
  let ?e0 = "e\<lparr>cores := cs\<rparr>"
  have len: "length cs = length (cores e)"
    using props(2) by (metis length_map)
  have p1: "\<exists>c\<in>set (cores ?e0). running c"
    using assms(1) props(2) unfolding running_exists_map by simp
  have p2: "length (cores ?e0) \<le> SIZE_MAX" using assms(2) len by simp
  have "size (mset failed_tasks + queued_tasks cs) = size (queued_tasks (cores e))"
    using props(1) by simp
  then have p3: "size (queued_tasks (cores ?e0)) + length failed_tasks < SIZE_MAX"
    using assms(3) by simp
  have p4: "\<forall>c\<in>set (cores ?e0). \<not> running c \<longrightarrow> task_queue c = []"
    using props(3) by simp
  from mce_redistribute_loop_keeps_tasks [OF p1 p2 p3 p4] obtain e' where e':
    "mce_redistribute_loop ?e0 failed_tasks = Returns () e'"
    "queued_tasks (cores e') = queued_tasks (cores ?e0) + mset failed_tasks"
    "map running (cores e') = map running (cores ?e0)"
    "execute_trace e' = execute_trace ?e0"
    "\<forall>c\<in>set (cores e'). \<not> running c \<longrightarrow> task_queue c = []"
    by blast
  have "mce_redistribute_tasks e = Returns () e'"
    using cf e'(1) by (simp add: mce_redistribute_tasks_def)
  moreover have "queued_tasks (cores e') = queued_tasks (cores e)"
    using e'(2) props(1) by (simp add: add.commute)
  moreover have "map running (cores e') = map running (cores e)"
    using e'(3) props(2) by simp
  moreover have "execute_trace e' = execute_trace e" using e'(4) by simp
  ultimately show ?thesis using e'(5) by blast
qed

text \<open>With no core running, every queue is drained and no target is found.\<close>

lemma collect_failed_none_running:
  "\<forall>c\<in>set cs. \<not> running c \<Longrightarrow>
   collect_failed cs = (concat (map task_queue cs), map (\<lambda>c. c\<lparr>task_queue := []\<rparr>) cs)"
  by (induction cs) simp_all

lemma mce_least_loop_none_running:
  "\<forall>c\<in>set cs. \<not> running c \<Longrightarrow> mce_least_loop cs i m t = t"
  by (induction cs arbitrary: i) simp_all

lemma mce_redistribute_loop_none_running:
  "\<forall>c\<in>set (cores e). \<not> running c \<Longrightarrow> mce_redistribute_loop e ts = Returns () e"
  by (induction ts) (simp_all add: mce_find_least_loaded_core_def mce_least_loop_none_running)

lemma mce_redistribute_tasks_none_running:
  assumes "\<forall>c\<in>set (cores e). \<not> running c"
  shows "mce_redistribute_tasks e =
           Returns () (e\<lparr>cores := map (\<lambda>c. c\<lparr>task_queue := []\<rparr>) (cores e)\<rparr>)"
proof -
  have "\<forall>c\<in>set (cores (e\<lparr>cores := map (\<lambda>c. c\<lparr>task_queue := []\<rparr>) (cores e)\<rparr>)). \<not> running c"
    using assms by simp
  from mce_redistribute_loop_none_running [OF this] show ?thesis
    using assms by (simp add: mce_redistribute_tasks_def collect_failed_none_running)
qed

lemma queued_tasks_emptied: "queued_tasks (map (\<lambda>c. c\<lparr>task_queue := []\<rparr>) cs) = {#}"
  by (induction cs) simp_all

text \<open>A task loop that returns has moved tasks from its queue to the trace and nothing
  else.\<close>

lemma process_tasks_returns:
  assumes "process_tasks execute e core_id = Returns u e'"
    and "task_queue (cores e ! core_id) = ts"
  shows "queued_tasks (cores e') + mset (execute_trace e') =
           queued_tasks (cores e) + mset (execute_trace e) \<and>
         map running (cores e') = map running (cores e) \<and>
         size (queued_tasks (cores e')) \<le> size (queued_tasks (cores e))"
  using assms
proof (induction ts arbitrary: e)
  case Nil
  have "core_id < length (cores e)"
  proof (rule ccontr)
    assume "\<not> core_id < length (cores e)"
    then have "process_tasks execute e core_id = BadDeref"
      by (subst process_tasks.simps) simp
    with Nil.prems(1) show False by simp
  qed
  with Nil.prems(2) have "process_tasks execute e core_id = Returns () e"
    by (subst process_tasks.simps) simp
  with Nil.prems(1) show ?case by simp
next
  case (Cons t ts)
  let ?cs1 = "(cores e)[core_id := (cores e ! core_id)\<lparr>task_queue := ts\<rparr>]"
  let ?e1 = "e\<lparr>cores := ?cs1, execute_trace := execute_trace e @ [t]\<rparr>"
  have lt: "core_id < length (cores e)"
  proof (rule ccontr)
    assume "\<not> core_id < length (cores e)"
    then have "process_tasks execute e core_id = BadDeref"
      by (subst process_tasks.simps) simp
    with Cons.prems(1) show False by simp
  qed
  have pop: "queued_tasks ?cs1 + {#t#} = queued_tasks (cores e)"
    using lt Cons.prems(2) by (rule queued_tasks_pop)
  then have "size (queued_tasks ?cs1 + {#t#}) = size (queued_tasks (cores e))" by simp
  then have sz: "size (queued_tasks ?cs1) \<le> size (queued_tasks (cores e))" by simp
  have inv1: "queued_tasks (cores ?e1) + mset (execute_trace ?e1) =
              queued_tasks (cores e) + mset (execute_trace e)"
    using pop by (simp add: add.assoc [symmetric] add.commute)
  have run1: "map running (cores ?e1) = map running (cores e)"
    by (simp add: running_update)
  have q1: "task_queue (cores ?e1 ! core_id) = ts" using lt by simp
  show ?case
  proof (cases "execute t")
    case None
    have "process_tasks execute e core_id = process_tasks execute ?e1 core_id"
      using lt Cons.prems(2) None by (subst process_tasks.simps) simp
    with Cons.prems(1) have "process_tasks execute ?e1 core_id = Returns u e'" by simp
    from Cons.IH [OF this q1] inv1 run1 sz show ?thesis by simp
  next
    case (Some th)
    show ?thesis
    proof (cases th)
      case (StdException what)
      let ?e2 = "handle_core_exception ?e1 core_id what"
      have "process_tasks execute e core_id = process_tasks execute ?e2 core_id"
        using lt Cons.prems(2) Some StdException by (subst process_tasks.simps) simp
      with Cons.prems(1) have r: "process_tasks execute ?e2 core_id = Returns u e'" by simp
      have q2: "task_queue (cores ?e2 ! core_id) = ts"
        using lt by (simp add: handle_core_exception_def)
      from Cons.IH [OF r q2] inv1 run1 sz show ?thesis
        by (simp add: handle_core_exception_def)
    next
      case (OtherThrown d)
      have "\<exists>e1. process_tasks execute e core_id = Throws d e1"
        using lt Cons.prems(2) Some OtherThrown by (subst process_tasks.simps) simp
      with Cons.prems(1) show ?thesis by auto
    qed
  qed
qed

text \<open>One operation that returns.\<close>

lemma apply_operation_keeps:
  assumes inv: "every_task_held_once s"
    and run: "op = Redistribute \<longrightarrow> (\<exists>c\<in>set (cores (fleet s)). running c)"
    and len: "length (cores (fleet s)) \<le> SIZE_MAX"
    and sz: "size (queued_tasks (cores (fleet s))) < SIZE_MAX"
    and step: "apply_operation execute s op = Some s'"
  shows "every_task_held_once s' \<and> balancer s' = balancer s \<and>
         map running (cores (fleet s')) = map running (cores (fleet s)) \<and>
         size (queued_tasks (cores (fleet s'))) \<le> size (queued_tasks (cores (fleet s))) + 1"
proof (cases op)
  case (Submit core_id task)
  let ?cs = "cores (fleet s)"
  from step Submit have lt: "core_id < length ?cs"
    by (auto simp: apply_operation_def mce_submit_task_def split: if_splits)
  let ?f = "(fleet s)\<lparr>cores := ?cs[core_id := (?cs ! core_id)\<lparr>task_queue := task_queue (?cs ! core_id) @ [task]\<rparr>]\<rparr>"
  from step Submit lt have s': "s' = s\<lparr>fleet := ?f, submitted := submitted s + {#task#}\<rparr>"
    by (simp add: apply_operation_def mce_submit_task_def)
  have q: "queued_tasks (cores ?f) = queued_tasks ?cs + {#task#}"
    using lt by (simp add: queued_tasks_push)
  have "every_task_held_once s'"
    using inv q unfolding s' every_task_held_once_def by simp
  moreover have "map running (cores (fleet s')) = map running ?cs"
    unfolding s' by (simp add: running_update)
  moreover have "size (queued_tasks (cores (fleet s'))) \<le> size (queued_tasks ?cs) + 1"
    unfolding s' using q by simp
  ultimately show ?thesis unfolding s' by simp
next
  case (Execute core_id)
  from step Execute obtain u f where f: "process_tasks execute (fleet s) core_id = Returns u f"
    and s': "s' = s\<lparr>fleet := f\<rparr>"
    by (cases "process_tasks execute (fleet s) core_id") (simp_all add: apply_operation_def)
  from process_tasks_returns [OF f refl] inv show ?thesis
    unfolding s' every_task_held_once_def by simp
next
  case Rebalance
  from step Rebalance obtain u b where b: "rebalance_load (balancer s) = Returns u b"
    and s': "s' = s\<lparr>balancer := b\<rparr>"
    by (cases "rebalance_load (balancer s)") (simp_all add: apply_operation_def)
  from rebalance_load_returns [OF b] have "b = balancer s" .
  with inv show ?thesis unfolding s' every_task_held_once_def by simp
next
  case (MarkUnhealthy core_id)
  from step MarkUnhealthy obtain u b where
    b: "mark_core_unhealthy (balancer s) core_id = Returns u b" and s': "s' = s\<lparr>balancer := b\<rparr>"
    by (cases "mark_core_unhealthy (balancer s) core_id") (simp_all add: apply_operation_def)
  from mark_core_unhealthy_returns [OF b] have "b = balancer s" by simp
  with inv show ?thesis unfolding s' every_task_held_once_def by simp
next
  case Redistribute
  with run have r: "\<exists>c\<in>set (cores (fleet s)). running c" by simp
  from mce_redistribute_tasks_running [OF r len sz] obtain f where
    f: "mce_redistribute_tasks (fleet s) = Returns () f"
       "queued_tasks (cores f) = queued_tasks (cores (fleet s))"
       "map running (cores f) = map running (cores (fleet s))"
       "execute_trace f = execute_trace (fleet s)"
    by blast
  from step Redistribute f(1) have s': "s' = s\<lparr>fleet := f\<rparr>"
    by (simp add: apply_operation_def)
  from inv f(2,3,4) show ?thesis unfolding s' every_task_held_once_def by simp
qed

lemma run_keeps:
  assumes "run execute s ops = Some s'"
    and "every_task_held_once s"
    and "Redistribute \<in> set ops \<longrightarrow> (\<exists>c\<in>set (cores (fleet s)). running c)"
    and "length (cores (fleet s)) \<le> SIZE_MAX"
    and "size (queued_tasks (cores (fleet s))) + length ops < SIZE_MAX"
  shows "every_task_held_once s' \<and> balancer s' = balancer s \<and>
         map running (cores (fleet s')) = map running (cores (fleet s))"
  using assms
proof (induction ops arbitrary: s)
  case Nil
  then show ?case by simp
next
  case (Cons op ops)
  from Cons.prems(1) obtain s1 where s1: "apply_operation execute s op = Some s1"
    and rest: "run execute s1 ops = Some s'"
    by (cases "apply_operation execute s op") simp_all
  have r: "op = Redistribute \<longrightarrow> (\<exists>c\<in>set (cores (fleet s)). running c)"
    using Cons.prems(3) by simp
  have sz: "size (queued_tasks (cores (fleet s))) < SIZE_MAX" using Cons.prems(5) by simp
  from apply_operation_keeps [OF Cons.prems(2) r Cons.prems(4) sz s1]
  have k: "every_task_held_once s1" "balancer s1 = balancer s"
    "map running (cores (fleet s1)) = map running (cores (fleet s))"
    "size (queued_tasks (cores (fleet s1))) \<le> size (queued_tasks (cores (fleet s))) + 1"
    by simp_all
  have p3: "Redistribute \<in> set ops \<longrightarrow> (\<exists>c\<in>set (cores (fleet s1)). running c)"
    using Cons.prems(3) k(3) unfolding running_exists_map by simp
  have "length (cores (fleet s1)) = length (cores (fleet s))"
    using k(3) by (metis length_map)
  then have p4: "length (cores (fleet s1)) \<le> SIZE_MAX" using Cons.prems(4) by simp
  have p5: "size (queued_tasks (cores (fleet s1))) + length ops < SIZE_MAX"
    using Cons.prems(5) k(4) by simp
  from Cons.IH [OF rest k(1) p3 p4 p5] k(2,3) show ?case by simp
qed

text \<open>
  C2 (as amended). Start from a state where every submitted task that has not been
  executed is on exactly one queue (and the numbers of cores and of tasks fit \<open>size_t\<close>).
  After any sequence of returning operations (submit to a core, a worker's task loop,
  \<open>LoadBalancer::rebalance_load\<close>, \<open>LoadBalancer::mark_core_unhealthy\<close> with the
  \<open>handle_core_failure\<close> and \<open>LoadBalancer::redistribute_tasks\<close> under it, and
  \<open>MultiCoreEngine::redistribute_tasks\<close>) the same holds again, provided that some core
  is running if \<open>MultiCoreEngine::redistribute_tasks\<close> is among them: no task is on two
  queues and none has vanished. The balancer is as it was, so its returning calls have
  moved nothing and have called nothing; the \<open>running\<close> flags are as they were. When no
  core is running, \<open>MultiCoreEngine::redistribute_tasks\<close> returns with every queue empty:
  the tasks that were queued are on no queue and were not executed.
\<close>

theorem operations_keep_every_task:
  assumes "every_task_held_once s"
    and "length (cores (fleet s)) \<le> SIZE_MAX"
    and "size (queued_tasks (cores (fleet s))) + length ops < SIZE_MAX"
  shows "(run execute s ops = Some s' \<and>
            (Redistribute \<in> set ops \<longrightarrow> (\<exists>c\<in>set (cores (fleet s)). running c)) \<longrightarrow>
            every_task_held_once s' \<and> balancer s' = balancer s \<and>
            map running (cores (fleet s')) = map running (cores (fleet s))) \<and>
         ((\<forall>c\<in>set (cores (fleet s)). \<not> running c) \<longrightarrow>
            run execute s [Redistribute] =
              Some (s\<lparr>fleet := (fleet s)\<lparr>cores := map (\<lambda>c. c\<lparr>task_queue := []\<rparr>) (cores (fleet s))\<rparr>\<rparr>) \<and>
            queued_tasks (map (\<lambda>c. c\<lparr>task_queue := []\<rparr>) (cores (fleet s))) = {#})"
proof (intro conjI impI)
  assume a: "run execute s ops = Some s' \<and>
            (Redistribute \<in> set ops \<longrightarrow> (\<exists>c\<in>set (cores (fleet s)). running c))"
  then have a1: "run execute s ops = Some s'"
    and a2: "Redistribute \<in> set ops \<longrightarrow> (\<exists>c\<in>set (cores (fleet s)). running c)"
    by simp_all
  from run_keeps [OF a1 assms(1) a2 assms(2,3)]
  show "every_task_held_once s'" "balancer s' = balancer s"
    "map running (cores (fleet s')) = map running (cores (fleet s))"
    by simp_all
next
  assume "\<forall>c\<in>set (cores (fleet s)). \<not> running c"
  from mce_redistribute_tasks_none_running [OF this]
  show "run execute s [Redistribute] =
          Some (s\<lparr>fleet := (fleet s)\<lparr>cores := map (\<lambda>c. c\<lparr>task_queue := []\<rparr>) (cores (fleet s))\<rparr>\<rparr>)"
    by (simp add: apply_operation_def)
next
  show "queued_tasks (map (\<lambda>c. c\<lparr>task_queue := []\<rparr>) (cores (fleet s))) = {#}"
    by (rule queued_tasks_emptied)
qed

text \<open>In \<open>system_example\<close>: a task is submitted to the stopped core 1, the balancer
  rebalances and is told of a core it does not know, the engine redistributes the three
  tasks of core 1 over the cores 2, 0 and 2, and the worker of core 2 runs its queue,
  whose first task fails.\<close>

lemma example_run:
  "run fails_on_2 system_example
     [Submit 1 (sample_task 4), Rebalance, MarkUnhealthy 9, Redistribute, Execute 2] =
   Some \<lparr>balancer = tie_snapshot,
         fleet = \<lparr>cores = [\<lparr>running = True, paused = False, task_queue = [sample_task 1, sample_task 3]\<rparr>,
                           \<lparr>running = False, paused = False, task_queue = []\<rparr>,
                           \<lparr>running = True, paused = False, task_queue = []\<rparr>],
                  execute_trace = [sample_task 2, sample_task 4],
                  handler_calls = [(2, ''boom'')]\<rparr>,
         submitted = {#sample_task 1, sample_task 2, sample_task 3, sample_task 4#}\<rparr>"
proof -
  have b: "rebalance_load tie_snapshot = Returns () tie_snapshot"
    by (simp add: rebalance_load_def tie_snapshot_def balancer_with_def is_overloaded_def
        core_sample_def to_double_0 to_double_08)
  have m: "mark_core_unhealthy tie_snapshot 9 = Returns () tie_snapshot"
    by (subst mark_core_unhealthy.simps) (simp add: tie_snapshot_def balancer_with_def)
  show ?thesis
    by (simp add: system_example_def apply_operation_def mce_submit_task_def mixed_engine_def
        engine_with_def b m mce_redistribute_tasks_def mce_find_least_loaded_core_def
        process_tasks.simps handle_core_exception_def fails_on_2_def sample_task_def
        SIZE_MAX_def)
qed

theorem operations_keep_every_task_witness:
  "every_task_held_once system_example \<and>
   length (cores (fleet system_example)) \<le> SIZE_MAX \<and>
   size (queued_tasks (cores (fleet system_example))) +
     length [Submit 1 (sample_task 4), Rebalance, MarkUnhealthy 9, Redistribute, Execute 2] < SIZE_MAX \<and>
   (\<exists>c\<in>set (cores (fleet system_example)). running c) \<and>
   (\<exists>s'. run fails_on_2 system_example
            [Submit 1 (sample_task 4), Rebalance, MarkUnhealthy 9, Redistribute, Execute 2] = Some s' \<and>
      map task_queue (cores (fleet s')) = [sample_task 1, sample_task 3] # [] # [] # [] \<and>
      execute_trace (fleet s') = [sample_task 2, sample_task 4] \<and>
      submitted s' = {#sample_task 1, sample_task 2, sample_task 3, sample_task 4#} \<and>
      every_task_held_once s' \<and> balancer s' = balancer system_example \<and>
      map running (cores (fleet s')) = [True, False, True]) \<and>
   every_task_held_once stopped_system \<and>
   length (cores (fleet stopped_system)) \<le> SIZE_MAX \<and>
   size (queued_tasks (cores (fleet stopped_system))) + length [Redistribute] < SIZE_MAX \<and>
   list_all (\<lambda>c. \<not> running c) (cores (fleet stopped_system)) \<and>
   run fails_on_2 stopped_system [Redistribute] =
     Some (stopped_system\<lparr>fleet := (fleet stopped_system)
             \<lparr>cores := map (\<lambda>c. c\<lparr>task_queue := []\<rparr>) (cores (fleet stopped_system))\<rparr>\<rparr>) \<and>
   queued_tasks (map (\<lambda>c. c\<lparr>task_queue := []\<rparr>) (cores (fleet stopped_system))) = {#}"
proof -
  let ?ops = "[Submit 1 (sample_task 4), Rebalance, MarkUnhealthy 9, Redistribute, Execute 2]"
  have h: "every_task_held_once system_example"
    "length (cores (fleet system_example)) \<le> SIZE_MAX"
    "size (queued_tasks (cores (fleet system_example))) + length ?ops < SIZE_MAX"
    by (simp_all add: every_task_held_once_def system_example_def mixed_engine_def engine_with_def
        queued_tasks_def SIZE_MAX_def)
  have r: "\<exists>c\<in>set (cores (fleet system_example)). running c"
    by (simp add: system_example_def mixed_engine_def engine_with_def)
  have m: "map running (cores (fleet system_example)) = [True, False, True]"
    by (simp add: system_example_def mixed_engine_def engine_with_def)
  obtain s' where s': "run fails_on_2 system_example ?ops = Some s'"
    "map task_queue (cores (fleet s')) = [sample_task 1, sample_task 3] # [] # [] # []"
    "execute_trace (fleet s') = [sample_task 2, sample_task 4]"
    "submitted s' = {#sample_task 1, sample_task 2, sample_task 3, sample_task 4#}"
    using example_run by simp
  from operations_keep_every_task [OF h, of fails_on_2 s'] s'(1) r
  have k: "every_task_held_once s'" "balancer s' = balancer system_example"
    "map running (cores (fleet s')) = [True, False, True]"
    unfolding m by simp_all
  have g: "every_task_held_once stopped_system"
    "length (cores (fleet stopped_system)) \<le> SIZE_MAX"
    "size (queued_tasks (cores (fleet stopped_system))) + length [Redistribute] < SIZE_MAX"
    by (simp_all add: every_task_held_once_def stopped_system_def stopped_engine_def
        engine_with_def queued_tasks_def SIZE_MAX_def)
  have n: "list_all (\<lambda>c. \<not> running c) (cores (fleet stopped_system))"
    by (simp add: stopped_system_def stopped_engine_def engine_with_def)
  from operations_keep_every_task [OF g, of fails_on_2 stopped_system] n
  have d: "run fails_on_2 stopped_system [Redistribute] =
     Some (stopped_system\<lparr>fleet := (fleet stopped_system)
             \<lparr>cores := map (\<lambda>c. c\<lparr>task_queue := []\<rparr>) (cores (fleet stopped_system))\<rparr>\<rparr>)"
    "queued_tasks (map (\<lambda>c. c\<lparr>task_queue := []\<rparr>) (cores (fleet stopped_system))) = {#}"
    by (simp_all add: list_all_iff)
  have ex: "\<exists>s'. run fails_on_2 system_example ?ops = Some s' \<and>
      map task_queue (cores (fleet s')) = [sample_task 1, sample_task 3] # [] # [] # [] \<and>
      execute_trace (fleet s') = [sample_task 2, sample_task 4] \<and>
      submitted s' = {#sample_task 1, sample_task 2, sample_task 3, sample_task 4#} \<and>
      every_task_held_once s' \<and> balancer s' = balancer system_example \<and>
      map running (cores (fleet s')) = [True, False, True]"
    by (intro exI [of _ s'] conjI s' k)
  show ?thesis
    using h r ex g n d by (intro conjI)
qed

text \<open>
  C2 (as stated) fails: in \<open>stopped_system\<close> the task of core 0 is on exactly one queue
  and no core is running; after \<open>MultiCoreEngine::redistribute_tasks\<close> it is on no queue
  and has not been executed.
\<close>

theorem redistribute_drops_tasks_counterexample:
  "every_task_held_once stopped_system \<and>
   run fails_on_2 stopped_system [Redistribute] =
     Some \<lparr>balancer = tie_snapshot,
           fleet = engine_with [\<lparr>running = False, paused = False, task_queue = []\<rparr>,
                                \<lparr>running = False, paused = False, task_queue = []\<rparr>],
           submitted = {#sample_task 1#}\<rparr> \<and>
   \<not> every_task_held_once
       \<lparr>balancer = tie_snapshot,
        fleet = engine_with [\<lparr>running = False, paused = False, task_queue = []\<rparr>,
                             \<lparr>running = False, paused = False, task_queue = []\<rparr>],
        submitted = {#sample_task 1#}\<rparr>"
  by (simp add: every_task_held_once_def stopped_system_def stopped_engine_def engine_with_def
      queued_tasks_def apply_operation_def mce_redistribute_tasks_def
      mce_find_least_loaded_core_def)

end
